theory Spec2Isabelle
  imports Main "HOL-Library.AList"
begin

section \<open>Python strings\<close>

text \<open>
  A Python \<open>str\<close> is a sequence of Unicode code points. The extraction script
  tests for CJK ideographs (U+4E00 to U+9FFF), so a character is modelled by its code
  point, a natural number, and a string by the list of its code points. \<open>ustr\<close>
  turns an ASCII literal into such a list.
\<close>

type_synonym pystr = "nat list"

definition ustr :: "string \<Rightarrow> pystr" where
  "ustr s = map of_char s"

text \<open>
  \<open>str.isspace\<close> for one character: the code points Python treats as whitespace.
  \<open>str.strip()\<close>, \<open>str.split()\<close> and the regular expression class
  \<^verbatim>\<open>\s\<close> all use this set.
\<close>

definition is_space :: "nat \<Rightarrow> bool" where
  "is_space c = (c \<in> set [9, 10, 11, 12, 13, 28, 29, 30, 31, 32, 133, 160, 5760,
      8192, 8193, 8194, 8195, 8196, 8197, 8198, 8199, 8200, 8201, 8202,
      8232, 8233, 8239, 8287, 12288])"

text \<open>\<open>s.strip()\<close>: whitespace removed at both ends.\<close>

definition strip :: "pystr \<Rightarrow> pystr" where
  "strip s = rev (dropWhile is_space (rev (dropWhile is_space s)))"

text \<open>
  \<open>s.split(sep)\<close> for a one-character separator (the scripts only split on
  \<open>","\<close>, \<open>"/"\<close> and \<open>"."\<close>). The result always has at least one part; the
  empty case of the inner \<open>case\<close> is never reached.
\<close>

fun split_on :: "nat \<Rightarrow> pystr \<Rightarrow> pystr list" where
  "split_on sep [] = [[]]"
| "split_on sep (c # cs) =
     (if c = sep then [] # split_on sep cs
      else (case split_on sep cs of [] \<Rightarrow> [[c]] | p # ps \<Rightarrow> (c # p) # ps))"

text \<open>\<open>s.split()\<close>: the maximal runs of non-whitespace characters.\<close>

fun split_ws_acc :: "pystr \<Rightarrow> pystr \<Rightarrow> pystr list" where
  "split_ws_acc cur [] = (if cur = [] then [] else [cur])"
| "split_ws_acc cur (c # cs) =
     (if is_space c
      then (if cur = [] then split_ws_acc [] cs else cur # split_ws_acc [] cs)
      else split_ws_acc (cur @ [c]) cs)"

definition split_ws :: "pystr \<Rightarrow> pystr list" where
  "split_ws s = split_ws_acc [] s"

text \<open>\<open>sep.join(parts)\<close>.\<close>

fun join :: "'a list \<Rightarrow> 'a list list \<Rightarrow> 'a list" where
  "join sep [] = []"
| "join sep [p] = p"
| "join sep (p # q # ps) = p @ sep @ join sep (q # ps)"

text \<open>\<open>s.split(sep)[0]\<close>: the text before the first separator.\<close>

definition first_part :: "nat \<Rightarrow> pystr \<Rightarrow> pystr" where
  "first_part sep s = (case split_on sep s of [] \<Rightarrow> [] | p # ps \<Rightarrow> p)"

text \<open>\<open>xs.index(x)\<close> when \<open>x\<close> is in \<open>xs\<close>: the position of its first occurrence.\<close>

definition index_of :: "'a \<Rightarrow> 'a list \<Rightarrow> nat" where
  "index_of x xs = length (takeWhile (\<lambda>y. y \<noteq> x) xs)"

text \<open>\<open>str(n)\<close> for an integer: decimal digits, with a minus sign when negative.\<close>

fun nat_digits :: "nat \<Rightarrow> pystr" where
  "nat_digits n = (if n < 10 then [48 + n] else nat_digits (n div 10) @ [48 + n mod 10])"

declare nat_digits.simps [simp del]

definition str_bool :: "bool \<Rightarrow> pystr" where
  "str_bool b = (if b then ustr ''True'' else ustr ''False'')"

text \<open>\<open>xs[:n]\<close>: a negative \<open>n\<close> counts from the end.\<close>

definition slice_to :: "int \<Rightarrow> 'a list \<Rightarrow> 'a list" where
  "slice_to n xs = (if n \<ge> 0 then take (nat n) xs else take (length xs - nat (- n)) xs)"

definition str_int :: "int \<Rightarrow> pystr" where
  "str_int i = (if i < 0 then 45 # nat_digits (nat (- i)) else nat_digits (nat i))"

section \<open>Parsed JSON values\<close>

text \<open>
  Records are what \<open>json.loads\<close> returns, or a dictionary the readers build:
  \<open>None\<close>, \<open>str\<close>, \<open>int\<close>, \<open>float\<close>, \<open>bool\<close>, \<open>dict\<close> with string keys
  and \<open>list\<close>. A dictionary keeps its insertion order, so it is an association list.

  The scripts never compute with a float: they only take \<open>str(v)\<close> of it and test its
  truth value. A float is therefore represented by the text \<open>repr\<close> gives for it,
  which is never empty and has no whitespace (\<open>1.5\<close>, \<open>1e+16\<close>, \<open>nan\<close>, \<open>-inf\<close>).
\<close>

typedef pyfloat = "{s :: pystr. s \<noteq> [] \<and> (\<forall>c \<in> set s. \<not> is_space c)}"
proof
  show "[48, 46, 48] \<in> {s :: pystr. s \<noteq> [] \<and> (\<forall>c \<in> set s. \<not> is_space c)}"
    by (simp add: is_space_def)
qed

setup_lifting type_definition_pyfloat

text \<open>\<open>str(v)\<close> for a float.\<close>

lift_definition float_str :: "pyfloat \<Rightarrow> pystr" is "\<lambda>s. s" .

datatype json =
    JNull
  | JStr pystr
  | JInt int
  | JFloat pyfloat
  | JBool bool
  | JDict "(pystr \<times> json) list"
  | JList "json list"

text \<open>The truth value Python gives a value in \<open>if v\<close>, \<open>not v\<close> and \<open>v or w\<close>.\<close>

fun truthy :: "json \<Rightarrow> bool" where
  "truthy JNull = False"
| "truthy (JStr s) = (s \<noteq> [])"
| "truthy (JInt i) = (i \<noteq> 0)"
| "truthy (JFloat f) = (float_str f \<noteq> ustr ''0.0'' \<and> float_str f \<noteq> ustr ''-0.0'')"
| "truthy (JBool b) = b"
| "truthy (JDict kvs) = (kvs \<noteq> [])"
| "truthy (JList vs) = (vs \<noteq> [])"

text \<open>
  The exceptions the scripts meet. \<open>IOError\<close> is another name of \<open>OSError\<close>;
  \<open>ValueError\<close> here is one that is not a \<open>JSONDecodeError\<close>. \<open>LookupError\<close>
  (what \<open>open\<close> raises for an encoding it does not know) and \<open>RecursionError\<close> are
  subclasses of neither.
\<close>

datatype pyerror =
    AttributeError
  | OSError pystr
  | ValueError pystr
  | LookupError
  | RecursionError

section \<open>Text Flattener (flatten\_strings)\<close>

text \<open>
  \<open>flatten_strings(value, max_items)\<close>. The nested function \<open>visit\<close> appends to the
  list \<open>out\<close> it shares with its caller; here \<open>out\<close> is passed in and returned.
  \<open>visit_items\<close> is the loop over \<open>v.items()\<close> and \<open>visit_seq\<close> the loop over a
  list. A parsed JSON value is never a tuple, a set or an object of another type, so the
  last line of \<open>visit\<close> has no case here; \<open>True\<close> and \<open>False\<close> are rendered by
  \<open>str\<close> like the other scalars.
\<close>

fun visit :: "int \<Rightarrow> json \<Rightarrow> pystr list \<Rightarrow> pystr list"
and visit_items :: "int \<Rightarrow> (pystr \<times> json) list \<Rightarrow> pystr list \<Rightarrow> pystr list"
and visit_seq :: "int \<Rightarrow> json list \<Rightarrow> pystr list \<Rightarrow> pystr list" where
  "visit max_items v out =
     (if int (length out) \<ge> max_items then out
      else (case v of
              JNull \<Rightarrow> out
            | JStr s \<Rightarrow> (if strip s \<noteq> [] then out @ [strip s] else out)
            | JInt i \<Rightarrow> out @ [str_int i]
            | JFloat f \<Rightarrow> out @ [float_str f]
            | JBool b \<Rightarrow> out @ [str_bool b]
            | JDict kvs \<Rightarrow> visit_items max_items kvs out
            | JList vs \<Rightarrow> visit_seq max_items vs out))"
| "visit_items max_items [] out = out"
| "visit_items max_items ((k, vv) # rest) out =
     (if int (length out) \<ge> max_items then out
      else visit_items max_items rest
             (visit max_items vv (if strip k \<noteq> [] then out @ [strip k] else out)))"
| "visit_seq max_items [] out = out"
| "visit_seq max_items (vv # rest) out =
     (if int (length out) \<ge> max_items then out
      else visit_seq max_items rest (visit max_items vv out))"

definition flatten_strings :: "json \<Rightarrow> int \<Rightarrow> pystr list" where
  "flatten_strings v max_items = slice_to max_items (visit max_items v [])"

text \<open>
  The flattener as the specification words it: every fragment of the value in depth-first
  order, with no bound. A string gives its trimmed text when that is not empty, a number
  or boolean its rendering, a mapping each trimmed non-empty key followed by the
  fragments of its value, a sequence the fragments of its elements.
\<close>

fun spec_fragments :: "json \<Rightarrow> pystr list"
and spec_fragments_items :: "(pystr \<times> json) list \<Rightarrow> pystr list"
and spec_fragments_seq :: "json list \<Rightarrow> pystr list" where
  "spec_fragments JNull = []"
| "spec_fragments (JStr s) = (if strip s \<noteq> [] then [strip s] else [])"
| "spec_fragments (JInt i) = [str_int i]"
| "spec_fragments (JFloat f) = [float_str f]"
| "spec_fragments (JBool b) = [str_bool b]"
| "spec_fragments (JDict kvs) = spec_fragments_items kvs"
| "spec_fragments (JList vs) = spec_fragments_seq vs"
| "spec_fragments_items [] = []"
| "spec_fragments_items ((k, vv) # rest) =
     (if strip k \<noteq> [] then [strip k] else []) @ spec_fragments vv @ spec_fragments_items rest"
| "spec_fragments_seq [] = []"
| "spec_fragments_seq (vv # rest) = spec_fragments vv @ spec_fragments_seq rest"

text \<open>A non-empty string with no whitespace at either end.\<close>

definition trimmed :: "pystr \<Rightarrow> bool" where
  "trimmed s = (s \<noteq> [] \<and> \<not> is_space (hd s) \<and> \<not> is_space (last s))"

declare visit.simps [simp del]

section \<open>Character classes of the Python runtime\<close>

text \<open>
  The ASCII range is written out. For the other code points the runtime consults the
  Unicode database, which is taken as a parameter: a record of tables that are only
  ever asked about code points from 128 on (\<open>uni_lower\<close> about strings that hold
  one, \<open>uni_ci_match\<close> about pattern characters from 128 on).
\<close>

record unicode_tables =
  uni_alnum :: "nat \<Rightarrow> bool"
  uni_alpha :: "nat \<Rightarrow> bool"
  uni_upper :: "nat \<Rightarrow> bool"
  uni_lower_or_title :: "nat \<Rightarrow> bool"
  uni_lower :: "pystr \<Rightarrow> pystr"
  uni_ci_match :: "nat \<Rightarrow> nat \<Rightarrow> bool"

definition ascii_upper :: "nat \<Rightarrow> bool" where
  "ascii_upper c = (65 \<le> c \<and> c \<le> 90)"

definition ascii_lower :: "nat \<Rightarrow> bool" where
  "ascii_lower c = (97 \<le> c \<and> c \<le> 122)"

definition ascii_digit :: "nat \<Rightarrow> bool" where
  "ascii_digit c = (48 \<le> c \<and> c \<le> 57)"

text \<open>The character class \<^verbatim>\<open>[A-Za-z0-9]\<close>.\<close>

definition ascii_alnum :: "nat \<Rightarrow> bool" where
  "ascii_alnum c = (ascii_upper c \<or> ascii_lower c \<or> ascii_digit c)"

definition ascii_tolower :: "nat \<Rightarrow> nat" where
  "ascii_tolower c = (if ascii_upper c then c + 32 else c)"

text \<open>
  The four letters outside ASCII that an ASCII letter matches under \<open>re.IGNORECASE\<close>:
  U+0130 and U+0131 (dotted capital I, dotless small i), U+017F (long s) and U+212A
  (the Kelvin sign).
\<close>

definition ascii_ci_extra :: "nat \<Rightarrow> nat list" where
  "ascii_ci_extra p =
     (if ascii_tolower p = 105 then [304, 305]
      else if ascii_tolower p = 115 then [383]
      else if ascii_tolower p = 107 then [8490]
      else [])"

definition is_alpha :: "unicode_tables \<Rightarrow> nat \<Rightarrow> bool" where
  "is_alpha U c =
     (if c < 128 then ascii_upper c \<or> ascii_lower c
      else c \<in> set [304, 305, 383, 8490] \<or> uni_alpha U c)"

definition is_alnum :: "unicode_tables \<Rightarrow> nat \<Rightarrow> bool" where
  "is_alnum U c =
     (if c < 128 then ascii_alnum c
      else c \<in> set [304, 305, 383, 8490] \<or> uni_alnum U c)"

text \<open>The class \<^verbatim>\<open>\w\<close> of a \<open>str\<close> pattern: alphanumeric characters and the underscore.\<close>

definition is_word :: "unicode_tables \<Rightarrow> nat \<Rightarrow> bool" where
  "is_word U c = (is_alnum U c \<or> c = 95)"

text \<open>
  \<open>s.isupper()\<close>: no cased character of \<open>s\<close> is lowercase or titlecase, and at least
  one is uppercase.
\<close>

definition py_isupper :: "unicode_tables \<Rightarrow> pystr \<Rightarrow> bool" where
  "py_isupper U s =
     (list_all (\<lambda>c. \<not> (if c < 128 then ascii_lower c else uni_lower_or_title U c)) s
      \<and> list_ex (\<lambda>c. if c < 128 then ascii_upper c else uni_upper U c) s)"

text \<open>\<open>s.lower()\<close>.\<close>

definition py_lower :: "unicode_tables \<Rightarrow> pystr \<Rightarrow> pystr" where
  "py_lower U s = (if list_all (\<lambda>c. c < 128) s then map ascii_tolower s else uni_lower U s)"

text \<open>
  Whether the literal pattern character \<open>p\<close> matches the text character \<open>c\<close> under
  \<open>re.IGNORECASE\<close>.
\<close>

definition ci_match :: "unicode_tables \<Rightarrow> nat \<Rightarrow> nat \<Rightarrow> bool" where
  "ci_match U p c =
     (if p < 128
      then (if c < 128 then ascii_tolower p = ascii_tolower c else c \<in> set (ascii_ci_extra p))
      else uni_ci_match U p c)"

section \<open>Regular expressions: the patterns build\_matcher writes\<close>

text \<open>
  \<open>build_matcher\<close> writes its pattern as text and hands it to \<open>re.compile\<close>. The text
  is made of four things only: characters escaped by \<open>re.escape\<close>, which match
  themselves (here up to case); the anchor \<^verbatim>\<open>\b\<close>; the token separator
  \<^verbatim>\<open>\s+\<close>; and \<^verbatim>\<open>(?!.*)\<close>, which matches nowhere. The compiled pattern is
  modelled by its syntax tree: one list of atoms for each alternative of the group.
\<close>

datatype atom = Lit nat | WordB | Spaces

datatype pattern = MatchNothing | Alternatives "atom list list"

definition re_escape :: "pystr \<Rightarrow> atom list" where
  "re_escape s = map Lit s"

text \<open>
  \<^verbatim>\<open>\b\<close> at position \<open>i\<close> of the text: exactly one of the characters before and
  after the position is a word character (a missing character counts as a non-word
  one).
\<close>

definition at_boundary :: "unicode_tables \<Rightarrow> pystr \<Rightarrow> nat \<Rightarrow> bool" where
  "at_boundary U t i =
     ((0 < i \<and> i \<le> length t \<and> is_word U (t ! (i - 1))) \<noteq> (i < length t \<and> is_word U (t ! i)))"

fun first_some :: "'a option list \<Rightarrow> 'a option" where
  "first_some [] = None"
| "first_some (None # xs) = first_some xs"
| "first_some (Some x # xs) = Some x"

text \<open>
  Matching a sequence of atoms at position \<open>i\<close>, as the backtracking matcher does: the
  result is the end of the first match it finds. \<^verbatim>\<open>\s+\<close> is greedy: it first takes
  every whitespace character there is, then gives them back one at a time.
\<close>

fun match_atoms :: "unicode_tables \<Rightarrow> atom list \<Rightarrow> pystr \<Rightarrow> nat \<Rightarrow> nat option" where
  "match_atoms U [] t i = Some i"
| "match_atoms U (Lit p # rest) t i =
     (if i < length t \<and> ci_match U p (t ! i) then match_atoms U rest t (Suc i) else None)"
| "match_atoms U (WordB # rest) t i =
     (if at_boundary U t i then match_atoms U rest t i else None)"
| "match_atoms U (Spaces # rest) t i =
     first_some (map (\<lambda>k. match_atoms U rest t (i + k))
                     (rev [1 ..< Suc (length (takeWhile is_space (drop i t)))]))"

text \<open>The group tries its alternatives from left to right.\<close>

definition match_pattern :: "unicode_tables \<Rightarrow> pattern \<Rightarrow> pystr \<Rightarrow> nat \<Rightarrow> nat option" where
  "match_pattern U p t i =
     (case p of
        MatchNothing \<Rightarrow> None
      | Alternatives parts \<Rightarrow> first_some (map (\<lambda>part. match_atoms U part t i) parts))"

text \<open>
  \<open>pattern.finditer(text)\<close>: the spans \<open>(start, end)\<close> of the matches, searched from
  left to right, each search starting where the last match ended. After an empty match
  the search moves on by one character.
\<close>

function finditer_from :: "unicode_tables \<Rightarrow> pattern \<Rightarrow> pystr \<Rightarrow> nat \<Rightarrow> (nat \<times> nat) list" where
  "finditer_from U p t i =
     (if length t < i then []
      else (case match_pattern U p t i of
              None \<Rightarrow> finditer_from U p t (Suc i)
            | Some j \<Rightarrow> (i, j) # finditer_from U p t (if i < j then j else Suc i)))"
  by pat_completeness auto
termination
  by (relation "measure (\<lambda>(U, p, t, i). Suc (length t) - i)") auto

declare finditer_from.simps [simp del]

definition finditer :: "unicode_tables \<Rightarrow> pattern \<Rightarrow> pystr \<Rightarrow> (nat \<times> nat) list" where
  "finditer U p t = finditer_from U p t 0"

text \<open>\<open>m.group(0)\<close>: the matched text.\<close>

definition group0 :: "pystr \<Rightarrow> nat \<times> nat \<Rightarrow> pystr" where
  "group0 t m = take (snd m - fst m) (drop (fst m) t)"

section \<open>Keyword Matcher Builder (build\_matcher, detect\_matches)\<close>

definition has_cjk :: "pystr \<Rightarrow> bool" where
  "has_cjk kw = list_ex (\<lambda>ch. 19968 \<le> ch \<and> ch \<le> 40959) kw"

text \<open>The body of the second loop of \<open>build_matcher\<close>: the alternative for one keyword.\<close>

definition keyword_part :: "unicode_tables \<Rightarrow> pystr \<Rightarrow> atom list" where
  "keyword_part U kw =
     (if has_cjk kw then re_escape kw
      else
        (let kw_stripped = strip kw;
             simple_wordish = (kw_stripped \<noteq> [] \<and> list_all ascii_alnum kw_stripped);
             is_short = (length kw_stripped \<le> 3);
             is_all_caps = (py_isupper U kw_stripped \<and> list_ex (is_alpha U) kw_stripped)
         in if simple_wordish \<and> (is_short \<or> is_all_caps)
            then [WordB] @ re_escape kw_stripped @ [WordB]
            else (let tokens = map re_escape (split_ws kw_stripped)
                  in if length tokens > 1
                     then [WordB] @ join [Spaces] tokens @ [WordB]
                     else re_escape kw_stripped)))"

definition build_matcher :: "unicode_tables \<Rightarrow> pystr list \<Rightarrow> pattern \<times> pystr list" where
  "build_matcher U keywords =
     (let cleaned = filter (\<lambda>kw. kw \<noteq> []) (map strip keywords)
      in if cleaned = [] then (MatchNothing, [])
         else (Alternatives (map (keyword_part U) cleaned), cleaned))"

text \<open>
  The loop of \<open>detect_matches\<close>: each match is appended, and the loop stops once
  \<open>max_hits\<close> hits are held.
\<close>

fun collect_hits :: "int \<Rightarrow> pystr list \<Rightarrow> pystr list \<Rightarrow> pystr list" where
  "collect_hits max_hits [] hits = hits"
| "collect_hits max_hits (m # ms) hits =
     (if int (length (hits @ [m])) \<ge> max_hits then hits @ [m]
      else collect_hits max_hits ms (hits @ [m]))"

definition detect_matches :: "unicode_tables \<Rightarrow> pattern \<Rightarrow> pystr \<Rightarrow> int \<Rightarrow> pystr list" where
  "detect_matches U p text max_hits = collect_hits max_hits (map (group0 text) (finditer U p text)) []"

section \<open>Field Filter\<close>

text \<open>
  \<open>_filter_record_fields(record, include_fields, exclude_fields)\<close>. \<open>include_fields\<close>
  is \<open>None\<close> or a list; it counts only when it holds at least one name. The first
  comprehension inserts the listed fields in the order of the list (a name listed twice
  is stored once); the second keeps the order of the record.
\<close>

definition dict_get :: "(pystr \<times> json) list \<Rightarrow> pystr \<Rightarrow> json option" where
  "dict_get d k = map_of d k"

text \<open>\<open>d[k] = v\<close>: the value is replaced in place when the key is there, appended otherwise.\<close>

definition dict_set :: "pystr \<Rightarrow> json \<Rightarrow> (pystr \<times> json) list \<Rightarrow> (pystr \<times> json) list" where
  "dict_set k v d = AList.update k v d"

definition filter_record_fields ::
  "(pystr \<times> json) list \<Rightarrow> pystr list option \<Rightarrow> pystr list \<Rightarrow> (pystr \<times> json) list" where
  "filter_record_fields record include_fields exclude_fields =
     (case include_fields of
        Some (f # fs) \<Rightarrow>
          foldl (\<lambda>d field. case dict_get record field of
                              Some v \<Rightarrow> dict_set field v d
                            | None \<Rightarrow> d) [] (f # fs)
      | _ \<Rightarrow>
          if exclude_fields \<noteq> []
          then filter (\<lambda>kv. fst kv \<notin> set exclude_fields) record
          else record)"

definition filter_record_for_output :: "json \<Rightarrow> pystr list option \<Rightarrow> pystr list \<Rightarrow> json" where
  "filter_record_for_output record include_fields exclude_fields =
     (case record of
        JDict kvs \<Rightarrow> JDict (filter_record_fields kvs include_fields exclude_fields)
      | _ \<Rightarrow> record)"

definition extract_text_from_record ::
  "json \<Rightarrow> int \<Rightarrow> pystr list option \<Rightarrow> pystr list \<Rightarrow> pystr" where
  "extract_text_from_record record max_items include_fields exclude_fields =
     (case record of
        JDict kvs \<Rightarrow>
          join (ustr '' '')
            (flatten_strings (JDict (filter_record_fields kvs include_fields exclude_fields)) max_items)
      | _ \<Rightarrow> join (ustr '' '') (flatten_strings record max_items))"

section \<open>The environment of a run\<close>

text \<open>
  What the script sees of the file system at one moment:
  \<^item> \<open>isfile\<close>: \<open>os.path.isfile\<close>;
  \<^item> \<open>walk\<close>: what \<open>os.walk(root)\<close> yields, as pairs of a directory path and the names
    of its files, in the order of the traversal;
  \<^item> \<open>read_lines\<close>: the lines of a file, each with its line end, after decoding with
    \<open>errors="replace"\<close> (which never fails), or the exception \<open>open\<close> raises:
    \<open>OSError\<close> for a file that is missing or may not be read, \<open>LookupError\<close> for an
    \<open>--encoding\<close> that Python does not know. A file that opens is read to its end.
\<close>

record fsview =
  isfile :: "pystr \<Rightarrow> bool"
  walk :: "pystr \<Rightarrow> (pystr \<times> pystr list) list"
  read_lines :: "pystr \<Rightarrow> pyerror + pystr list"

text \<open>
  The file system as a scan sees it. A run that is not a dry run creates and truncates
  its output file before it walks the input, so its scan sees the file system with that
  file in it; \<open>names_output\<close> tells which paths name the output file.
\<close>

record surroundings =
  view :: fsview
  names_output :: "pystr \<Rightarrow> bool"

text \<open>
  What \<open>json.loads\<close> does with a text: it returns a value, raises \<open>JSONDecodeError\<close>
  with a message, or raises something else (a plain \<open>ValueError\<close> for an integer with
  too many digits, \<open>RecursionError\<close> for brackets nested too deep).
\<close>

datatype loads_outcome = Parsed json | DecodeError pystr | Raises pyerror

datatype write_outcome = WriteOk | WriteIOError | WriteOtherError

text \<open>
  What the script asks of the operating system and of the \<open>json\<close> module:
  \<^item> \<open>fs\<close>: the file system before the run;
  \<^item> \<open>json_loads\<close>: \<open>json.loads\<close>;
  \<^item> \<open>open_output\<close>: making the parent directory of the output path and opening the
    output file for writing: \<open>None\<close> when that raises \<open>OSError\<close>, otherwise what the
    scan sees once the file is there;
  \<^item> \<open>write_result\<close>: what writing a record as the next output line does, given the
    number of lines written so far.
\<close>

record env =
  fs :: fsview
  json_loads :: "pystr \<Rightarrow> loads_outcome"
  open_output :: "pystr \<Rightarrow> surroundings option"
  write_result :: "nat \<Rightarrow> json \<Rightarrow> write_outcome"

text \<open>What a dry run sees: the file system as it was, with no output file.\<close>

definition dry_surroundings :: "env \<Rightarrow> surroundings" where
  "dry_surroundings e = \<lparr>view = fs e, names_output = (\<lambda>p. False)\<rparr>"

text \<open>
  Opening a file of the input for reading. The output file was truncated when it was
  opened for writing, so as long as nothing has been written to it, it reads as an empty
  file. (What it reads as after a write depends on the buffering of the writer; the
  driver below leaves that case to one side.)
\<close>

definition read_input :: "surroundings \<Rightarrow> pystr \<Rightarrow> pyerror + pystr list" where
  "read_input w path = (if names_output w path then Inr [] else read_lines (view w) path)"

section \<open>Paths\<close>

text \<open>
  \<open>os.path.splitext(p)[1]\<close> on a POSIX system: the text from the last dot of the last
  path component on, provided a character other than a dot comes before that dot in the
  component; otherwise the empty string.
\<close>

definition splitext_ext :: "pystr \<Rightarrow> pystr" where
  "splitext_ext p =
     (let base = rev (takeWhile (\<lambda>c. c \<noteq> 47) (rev p));
          rext = takeWhile (\<lambda>c. c \<noteq> 46) (rev base);
          stem = take (length base - length rext - 1) base
      in if 46 \<in> set base \<and> list_ex (\<lambda>c. c \<noteq> 46) stem then 46 # rev rext else [])"

text \<open>\<open>os.path.join(a, b)\<close> on a POSIX system.\<close>

definition path_join :: "pystr \<Rightarrow> pystr \<Rightarrow> pystr" where
  "path_join a b =
     (if b \<noteq> [] \<and> hd b = 47 then b
      else if a = [] \<or> last a = 47 then a @ b
      else a @ [47] @ b)"

section \<open>Record Source Reader\<close>

text \<open>
  \<open>iter_files(root, allowed_exts)\<close>: a regular file is yielded as it is; otherwise the
  tree is walked and the files whose lowercased extension is allowed are yielded.
\<close>

definition iter_files :: "unicode_tables \<Rightarrow> fsview \<Rightarrow> pystr \<Rightarrow> pystr list \<Rightarrow> pystr list" where
  "iter_files U v root allowed_exts =
     (if isfile v root then [root]
      else concat (map (\<lambda>(dirpath, filenames).
              map (path_join dirpath)
                  (filter (\<lambda>filename. py_lower U (splitext_ext filename) \<in> set allowed_exts)
                     filenames))
             (walk v root)))"

text \<open>
  \<open>iter_jsonl_records\<close> and \<open>iter_txt_records\<close> are generators: calling them runs
  nothing, \<open>open\<close> is reached when the first record is asked for, and each line is
  read and parsed when its record is asked for. What a generator does is therefore the
  list of the records it yields and then, if it ends by raising, the exception it raises.
\<close>

type_synonym record_stream = "(nat \<times> json) list \<times> pyerror option"

definition yield :: "nat \<times> json \<Rightarrow> record_stream \<Rightarrow> record_stream" where
  "yield r s = (r # fst s, snd s)"

text \<open>
  The loop of \<open>iter_jsonl_records\<close> over \<open>enumerate(f, start=1)\<close>: \<open>line_no\<close> is the
  number of the line at the head of the list. Only \<open>JSONDecodeError\<close> is caught; any
  other exception of \<open>json.loads\<close> ends the generator.
\<close>

fun jsonl_lines :: "(pystr \<Rightarrow> loads_outcome) \<Rightarrow> nat \<Rightarrow> pystr list \<Rightarrow> record_stream" where
  "jsonl_lines loads line_no [] = ([], None)"
| "jsonl_lines loads line_no (line # rest) =
     (let s = strip line in
      if s = [] then jsonl_lines loads (Suc line_no) rest
      else (case loads s of
              Parsed v \<Rightarrow> yield (line_no, v) (jsonl_lines loads (Suc line_no) rest)
            | DecodeError e \<Rightarrow>
                yield (line_no, JDict [(ustr ''text'', JStr s),
                                       (ustr ''_parse_error'', JStr (ustr ''invalid_json: '' @ e))])
                      (jsonl_lines loads (Suc line_no) rest)
            | Raises err \<Rightarrow> ([], Some err)))"

definition iter_jsonl_records :: "env \<Rightarrow> surroundings \<Rightarrow> pystr \<Rightarrow> record_stream" where
  "iter_jsonl_records e w path =
     (case read_input w path of
        Inl err \<Rightarrow> ([], Some err)
      | Inr lines \<Rightarrow> jsonl_lines (json_loads e) 1 lines)"

fun txt_lines :: "int \<Rightarrow> nat \<Rightarrow> pystr list \<Rightarrow> (nat \<times> json) list" where
  "txt_lines min_line_length line_no [] = []"
| "txt_lines min_line_length line_no (line # rest) =
     (let text = strip line in
      if int (length text) < min_line_length then txt_lines min_line_length (Suc line_no) rest
      else (line_no, JDict [(ustr ''text'', JStr text)])
           # txt_lines min_line_length (Suc line_no) rest)"

definition iter_txt_records :: "surroundings \<Rightarrow> pystr \<Rightarrow> int \<Rightarrow> record_stream" where
  "iter_txt_records w path min_line_length =
     (case read_input w path of
        Inl err \<Rightarrow> ([], Some err)
      | Inr lines \<Rightarrow> (txt_lines min_line_length 1 lines, None))"

text \<open>
  \<open>_load_json_file\<close> is an ordinary function: it opens and parses the file when called.
  \<open>json.load(f)\<close> parses the whole text of the file. A \<open>JSONDecodeError\<close> is raised
  again as a \<open>ValueError\<close> and an \<open>IOError\<close> as an \<open>IOError\<close> (with a longer
  message, which the model does not keep); any other exception passes through.
\<close>

definition load_json_file :: "env \<Rightarrow> surroundings \<Rightarrow> pystr \<Rightarrow> pyerror + (nat \<times> json) list" where
  "load_json_file e w path =
     (case read_input w path of
        Inl err \<Rightarrow> Inl err
      | Inr lines \<Rightarrow>
          (case json_loads e (concat lines) of
             Parsed obj \<Rightarrow> Inr [(1, obj)]
           | DecodeError msg \<Rightarrow> Inl (ValueError msg)
           | Raises err \<Rightarrow> Inl err))"

section \<open>Extraction Driver (main)\<close>

datatype language = En | Zh | Both

record args =
  input :: pystr
  output_arg :: pystr
  extensions :: pystr
  language :: language
  keywords_arg :: pystr
  min_line_length :: int
  max_flatten_items :: int
  fields_arg :: pystr
  include_meta_info :: bool
  max_hits_per_record :: int
  max_records :: int
  dry_run :: bool

definition DEFAULT_KEYWORDS_EN :: "pystr list" where
  "DEFAULT_KEYWORDS_EN = map ustr
     [''heart disease'', ''cardiac'', ''cardiovascular'', ''coronary'', ''coronary artery'',
      ''CAD'', ''atherosclerosis'', ''angina'', ''myocardial infarction'', ''MI'', ''STEMI'',
      ''NSTEMI'', ''myocarditis'', ''pericarditis'', ''endocarditis'', ''heart failure'',
      ''CHF'', ''cardiomyopathy'', ''arrhythmia'', ''atrial fibrillation'', ''AFib'',
      ''ventricular tachycardia'', ''ventricular fibrillation'', ''valvular'',
      ''aortic stenosis'', ''mitral regurgitation'']"

definition DEFAULT_KEYWORDS_ZH :: "pystr list" where
  "DEFAULT_KEYWORDS_ZH =
     [[24515, 33039, 30149], [24515, 33039], [20896, 24515, 30149],
      [20896, 29366, 21160, 33033], [24515, 32908, 26775, 27515], [24515, 26775],
      [24515, 32478, 30171], [24515, 34928], [24515, 21147, 34928, 31469],
      [24515, 24459, 22833, 24120], [25151, 39076], [24515, 32908, 28814],
      [24515, 21253, 28814], [24515, 20869, 33180, 28814], [24515, 32908, 30149],
      [29923, 33180], [21160, 33033, 31909, 26679, 30828, 21270]]"

text \<open>
  The state of the scan: the three counters, the lines written to the output file so
  far, and the files a warning was printed for.
\<close>

record scan_state =
  total_records :: int
  matched_records :: int
  scanned_files :: int
  written :: "json list"
  warnings :: "pystr list"

text \<open>
  What the scanning loop reads of the configuration. \<open>out_open\<close> says that \<open>out_f\<close> is
  an open file, that is, that the run is not a dry run.
\<close>

record scan_config =
  cfg_pattern :: pattern
  cfg_include_fields :: "pystr list option"
  cfg_exclude_fields :: "pystr list"
  cfg_min_line_length :: int
  cfg_max_flatten_items :: int
  cfg_max_hits_per_record :: int
  cfg_max_records :: int
  cfg_out_open :: bool

text \<open>The record written for a match: lines 374 to 389 of the script.\<close>

definition extract_meta :: "pystr \<Rightarrow> nat \<Rightarrow> pystr list \<Rightarrow> json" where
  "extract_meta path line_no hits =
     JDict [(ustr ''source_path'', JStr path),
            (ustr ''source_line'', JInt (int line_no)),
            (ustr ''matched_keywords'', JList (map JStr hits))]"

definition out_record ::
  "pystr \<Rightarrow> nat \<Rightarrow> pystr list \<Rightarrow> json \<Rightarrow> pystr list option \<Rightarrow> pystr list \<Rightarrow> json" where
  "out_record path line_no hits record include_fields exclude_fields =
     (case filter_record_for_output record include_fields exclude_fields of
        JDict filtered \<Rightarrow>
          JDict (dict_set (ustr ''_extract_meta'') (extract_meta path line_no hits) filtered)
      | filtered_record \<Rightarrow>
          JDict [(ustr ''raw'', filtered_record),
                 (ustr ''_extract_meta'', extract_meta path line_no hits)])"

text \<open>
  How the scanning loop can be left before its end: a failed write raises
  \<open>SystemExit\<close>; any other exception is caught by \<open>except Exception\<close>, which prints
  the error and returns 1. \<open>OutsideModel\<close> is not an event of the program: it marks a run
  that opens its own output file for reading after it has written to it, where what is
  read depends on the buffering of the writer and the model says nothing.
\<close>

datatype abort = OutputWriteFailed | UnexpectedError | OutsideModel

text \<open>
  The loop over the records of one file. \<open>ending\<close> is the exception the generator
  raises once its records are used up, if it raises one; a \<open>break\<close> leaves the loop
  before the generator is asked again. \<open>Inr\<close> is the state when the loop ends, by
  exhaustion or by \<open>break\<close>.
\<close>

fun scan_records ::
  "unicode_tables \<Rightarrow> env \<Rightarrow> scan_config \<Rightarrow> pystr \<Rightarrow> pyerror option \<Rightarrow> (nat \<times> json) list
     \<Rightarrow> scan_state \<Rightarrow> (abort \<times> scan_state) + scan_state" where
  "scan_records U e c path ending [] st =
     (case ending of None \<Rightarrow> Inr st | Some err \<Rightarrow> Inl (UnexpectedError, st))"
| "scan_records U e c path ending ((line_no, record) # rest) st =
     (let st1 = st\<lparr>total_records := total_records st + 1\<rparr> in
      if cfg_max_records c \<noteq> 0 \<and> total_records st1 > cfg_max_records c then Inr st1
      else
        (let text = extract_text_from_record record (cfg_max_flatten_items c)
                      (cfg_include_fields c) (cfg_exclude_fields c);
             hits = detect_matches U (cfg_pattern c) text (cfg_max_hits_per_record c)
         in if hits = [] then scan_records U e c path ending rest st1
            else
              (let st2 = st1\<lparr>matched_records := matched_records st1 + 1\<rparr>;
                   out = out_record path line_no hits record
                           (cfg_include_fields c) (cfg_exclude_fields c)
               in if cfg_out_open c
                  then (case write_result e (length (written st2)) out of
                          WriteOk \<Rightarrow>
                            scan_records U e c path ending rest
                              (st2\<lparr>written := written st2 @ [out]\<rparr>)
                        | WriteIOError \<Rightarrow> Inl (OutputWriteFailed, st2)
                        | WriteOtherError \<Rightarrow> Inl (UnexpectedError, st2))
                  else scan_records U e c path ending rest st2)))"

text \<open>
  Lines 346 to 357: choosing the reader. \<open>Records\<close> holds the records the loop will be
  given and the exception that follows them, if any; for the two generators the
  exception surfaces inside the record loop, outside the \<open>try\<close> of these lines.
  \<open>ReaderFailed\<close> is an \<open>IOError\<close> or \<open>ValueError\<close> of \<open>_load_json_file\<close>, which
  that \<open>try\<close> catches; \<open>ReaderRaised\<close> is any other exception of it, which it does
  not.
\<close>

datatype reader =
    NoReader
  | ReaderFailed pyerror
  | ReaderRaised pyerror
  | Records "(nat \<times> json) list" "pyerror option"

definition caught_as_io_or_value_error :: "pyerror \<Rightarrow> bool" where
  "caught_as_io_or_value_error err =
     (case err of OSError p \<Rightarrow> True | ValueError m \<Rightarrow> True | _ \<Rightarrow> False)"

definition resolve_reader :: "env \<Rightarrow> surroundings \<Rightarrow> scan_config \<Rightarrow> pystr \<Rightarrow> pystr \<Rightarrow> reader" where
  "resolve_reader e w c ext path =
     (if ext = ustr ''.jsonl''
      then Records (fst (iter_jsonl_records e w path)) (snd (iter_jsonl_records e w path))
      else if ext = ustr ''.txt''
      then Records (fst (iter_txt_records w path (cfg_min_line_length c)))
                   (snd (iter_txt_records w path (cfg_min_line_length c)))
      else if ext = ustr ''.json''
      then (case load_json_file e w path of
              Inl err \<Rightarrow> if caught_as_io_or_value_error err then ReaderFailed err
                         else ReaderRaised err
            | Inr records \<Rightarrow> Records records None)
      else NoReader)"

text \<open>
  The loop over the files, lines 342 to 398. \<open>w\<close> is what the scan sees of the file
  system.
\<close>

fun scan_files ::
  "unicode_tables \<Rightarrow> env \<Rightarrow> surroundings \<Rightarrow> scan_config \<Rightarrow> pystr list \<Rightarrow> scan_state
     \<Rightarrow> (abort \<times> scan_state) + scan_state" where
  "scan_files U e w c [] st = Inr st"
| "scan_files U e w c (path # rest) st =
     (let st1 = st\<lparr>scanned_files := scanned_files st + 1\<rparr>;
          ext = py_lower U (splitext_ext path)
      in if names_output w path \<and> written st \<noteq> []
            \<and> (ext = ustr ''.jsonl'' \<or> ext = ustr ''.txt'' \<or> ext = ustr ''.json'')
         then Inl (OutsideModel, st1)
         else
           (case resolve_reader e w c ext path of
              NoReader \<Rightarrow> scan_files U e w c rest st1
            | ReaderFailed err \<Rightarrow>
                scan_files U e w c rest (st1\<lparr>warnings := warnings st1 @ [path]\<rparr>)
            | ReaderRaised err \<Rightarrow> Inl (UnexpectedError, st1)
            | Records records ending \<Rightarrow>
                (case scan_records U e c path ending records st1 of
                   Inl a \<Rightarrow> Inl a
                 | Inr st2 \<Rightarrow>
                     if cfg_max_records c \<noteq> 0 \<and> total_records st2 \<ge> cfg_max_records c
                     then Inr st2
                     else scan_files U e w c rest st2)))"

text \<open>
  How a run ends: \<open>SystemExit\<close> with a message (a fatal error), a return of 1 after
  an unexpected error, or a return of 0 after printing the three counts. \<open>Unmodelled\<close>
  is the end of a run that left the model (see \<open>OutsideModel\<close>).
\<close>

datatype status =
    Fatal pystr
  | ReturnedOne
  | Reported int int int
  | Unmodelled

definition split_commas :: "pystr \<Rightarrow> pystr list" where
  "split_commas s = filter (\<lambda>x. x \<noteq> []) (map strip (split_on 44 s))"

definition initial_state :: scan_state where
  "initial_state = \<lparr>total_records = 0, matched_records = 0, scanned_files = 0,
                     written = [], warnings = []\<rparr>"

text \<open>
  \<open>main\<close>, from the parsed arguments on. The result is how the run ended, the lines
  of the output file (\<open>None\<close> when no output file was opened) and the files
  skipped with a warning. The output file is opened, and so created and truncated, before
  the input is walked. The \<open>finally\<close> clause only closes the output file, and a
  keyboard interrupt comes from outside the program at an arbitrary moment: neither
  is part of the model.
\<close>

definition main :: "unicode_tables \<Rightarrow> env \<Rightarrow> args \<Rightarrow> status \<times> json list option \<times> pystr list" where
  "main U e a =
     (let allowed_exts = map (py_lower U) (split_commas (extensions a)) in
      if allowed_exts = [] then (Fatal (ustr ''Error: --extensions cannot be empty''), None, [])
      else
        (let keywords_list =
               (if strip (keywords_arg a) \<noteq> [] then split_commas (keywords_arg a)
                else (if language a = En \<or> language a = Both then DEFAULT_KEYWORDS_EN else [])
                   @ (if language a = Zh \<or> language a = Both then DEFAULT_KEYWORDS_ZH else []));
             (pat, normalized_keywords) = build_matcher U keywords_list
         in if normalized_keywords = []
            then (Fatal (ustr ''Error: No keywords provided or all keywords were empty.''), None, [])
            else
              (let include_fields = (case split_commas (fields_arg a) of [] \<Rightarrow> None | names \<Rightarrow> Some names);
                   exclude_fields = (if include_meta_info a then [] else [ustr ''meta_info''])
               in if max_records a < 0
                  then (Fatal (ustr ''Error: --max-records must be non-negative''), None, [])
                  else
                    (case (if dry_run a then Some (dry_surroundings e)
                           else open_output e (output_arg a)) of
                       None \<Rightarrow> (Fatal (ustr ''Error: Failed to open output file''), None, [])
                     | Some w \<Rightarrow>
                    (let c = \<lparr>cfg_pattern = pat,
                              cfg_include_fields = include_fields,
                              cfg_exclude_fields = exclude_fields,
                              cfg_min_line_length = min_line_length a,
                              cfg_max_flatten_items = max_flatten_items a,
                              cfg_max_hits_per_record = max_hits_per_record a,
                              cfg_max_records = max_records a,
                              cfg_out_open = (\<not> dry_run a)\<rparr>;
                         out_file = (\<lambda>st. if dry_run a then None else Some (written st))
                     in case scan_files U e w c
                               (iter_files U (view w) (input a) allowed_exts) initial_state of
                          Inl (OutputWriteFailed, st) \<Rightarrow>
                            (Fatal (ustr ''Error: Failed to write to output file''),
                             out_file st, warnings st)
                        | Inl (UnexpectedError, st) \<Rightarrow> (ReturnedOne, out_file st, warnings st)
                        | Inl (OutsideModel, st) \<Rightarrow> (Unmodelled, out_file st, warnings st)
                        | Inr st \<Rightarrow>
                            (Reported (scanned_files st) (total_records st) (matched_records st),
                             out_file st, warnings st))))))"

section \<open>Notions for stating properties of the driver\<close>

text \<open>The steps of the record loop, named: counting a record and counting a match.\<close>

definition counted :: "scan_state \<Rightarrow> scan_state" where
  "counted st = st\<lparr>total_records := total_records st + 1\<rparr>"

definition matched :: "scan_state \<Rightarrow> scan_state" where
  "matched st = st\<lparr>matched_records := matched_records st + 1\<rparr>"


definition at_limit :: "scan_config \<Rightarrow> scan_state \<Rightarrow> bool" where
  "at_limit c st = (cfg_max_records c \<noteq> 0 \<and> total_records st \<ge> cfg_max_records c)"


text \<open>The state a loop was left with, whether it ended or was aborted.\<close>

definition final_state :: "(abort \<times> scan_state) + scan_state \<Rightarrow> scan_state" where
  "final_state r = (case r of Inl (a, st) \<Rightarrow> st | Inr st \<Rightarrow> st)"

text \<open>Two states with the same counters and the same warnings.\<close>

definition same_counts :: "scan_state \<Rightarrow> scan_state \<Rightarrow> bool" where
  "same_counts s t =
     (total_records s = total_records t \<and> matched_records s = matched_records t
      \<and> scanned_files s = scanned_files t \<and> warnings s = warnings t)"

text \<open>
  What \<open>main\<close> computes from its arguments before it scans: the allowed extensions,
  the keyword list, the two field lists and the configuration of the scan.
\<close>

definition allowed_exts_of :: "unicode_tables \<Rightarrow> args \<Rightarrow> pystr list" where
  "allowed_exts_of U a = map (py_lower U) (split_commas (extensions a))"








text \<open>
  What a run shows of the way its scan ended, apart from the output file: whether and
  how it was aborted, the three counters and the warnings.
\<close>

definition outcome_view ::
  "(abort \<times> scan_state) + scan_state \<Rightarrow> abort option \<times> int \<times> int \<times> int \<times> pystr list" where
  "outcome_view r =
     (case r of
        Inl (a, st) \<Rightarrow>
          (Some a, scanned_files st, total_records st, matched_records st, warnings st)
      | Inr st \<Rightarrow>
          (None, scanned_files st, total_records st, matched_records st, warnings st))"

text \<open>
  The records the record loop is given for a file: those its reader yields before it
  ends or raises (none when there is no reader or the reader fails at once).
\<close>

definition has_reader :: "pystr \<Rightarrow> bool" where
  "has_reader ext = (ext = ustr ''.jsonl'' \<or> ext = ustr ''.txt'' \<or> ext = ustr ''.json'')"


text \<open>
  The output file lies apart from the input: creating it leaves what \<open>iter_files\<close>
  finds unchanged, and none of the files to scan is the output file or reads
  differently once the output file is there.
\<close>

definition output_apart :: "unicode_tables \<Rightarrow> env \<Rightarrow> args \<Rightarrow> bool" where
  "output_apart U e a =
     (case open_output e (output_arg a) of
        None \<Rightarrow> True
      | Some w \<Rightarrow>
          iter_files U (view w) (input a) (allowed_exts_of U a)
            = iter_files U (fs e) (input a) (allowed_exts_of U a)
          \<and> list_all (\<lambda>p. \<not> names_output w p \<and> read_lines (view w) p = read_lines (fs e) p)
               (iter_files U (fs e) (input a) (allowed_exts_of U a)))"

text \<open>
  Whether the field filter keeps a field of a record that has it: with a list of fields
  to include, the field must be listed; otherwise it must not be excluded.
\<close>

definition keeps_field :: "pystr \<Rightarrow> pystr list option \<Rightarrow> pystr list \<Rightarrow> bool" where
  "keeps_field name include_fields exclude_fields =
     (case include_fields of
        Some (f # others) \<Rightarrow> name \<in> set (f # others)
      | _ \<Rightarrow> name \<notin> set exclude_fields)"

section \<open>Stage two: the Knowledge label (convert\_mcq\_to\_eval.py)\<close>

text \<open>
  \<open>derive_knowledge(meta)\<close>. \<open>(meta or {}).get("source_path", "")\<close> needs a dictionary
  once \<open>meta\<close> is truthy, and \<open>sp.replace\<close> needs a string once \<open>sp\<close> is truthy; any
  other value raises \<open>AttributeError\<close>.
\<close>

definition knowledge_of_path :: "pystr \<Rightarrow> pystr" where
  "knowledge_of_path sp =
     (let parts = split_on 47 (map (\<lambda>c. if c = 92 then 47 else c) sp) in
      if ustr ''questions'' \<in> set parts \<and> index_of (ustr ''questions'') parts + 2 < length parts
      then (let i = index_of (ustr ''questions'') parts;
                region = parts ! (i + 1);
                split_file = parts ! (i + 2);
                split = first_part 46 split_file
            in region @ ustr ''/'' @ split)
      else if length parts \<ge> 2
      then first_part 46 (join (ustr ''/'') (drop (length parts - 2) parts))
      else (case parts of [] \<Rightarrow> ustr ''unknown'' | _ \<Rightarrow> first_part 46 (last parts)))"

definition derive_knowledge :: "json \<Rightarrow> pyerror + pystr" where
  "derive_knowledge meta =
     (case (if truthy meta then meta else JDict []) of
        JDict kvs \<Rightarrow>
          (let sp = (case map_of kvs (ustr ''source_path'') of None \<Rightarrow> JStr [] | Some v \<Rightarrow> v) in
           if \<not> truthy sp then Inr (ustr ''unknown'')
           else (case sp of JStr s \<Rightarrow> Inr (knowledge_of_path s) | _ \<Rightarrow> Inl AttributeError))
      | _ \<Rightarrow> Inl AttributeError)"

section \<open>Concrete runs\<close>

text \<open>
  The tables of a runtime that is only ever asked about ASCII text: no other code point
  is a letter, and a non-ASCII character matches only itself.
\<close>

definition ascii_tables :: unicode_tables where
  "ascii_tables =
     \<lparr>uni_alnum = (\<lambda>c. False), uni_alpha = (\<lambda>c. False), uni_upper = (\<lambda>c. False),
      uni_lower_or_title = (\<lambda>c. False), uni_lower = (\<lambda>s. s),
      uni_ci_match = (\<lambda>p c. p = c)\<rparr>"

text \<open>The defaults that \<open>argparse\<close> gives the arguments.\<close>

definition default_args :: args where
  "default_args =
     \<lparr>input = ustr ''data/raw'',
      output_arg = ustr ''data/derived/heart_disease.jsonl'',
      extensions = ustr ''.jsonl,.json,.txt'',
      language = Both,
      keywords_arg = [],
      min_line_length = 20,
      max_flatten_items = 200,
      fields_arg = [],
      include_meta_info = False,
      max_hits_per_record = 20,
      max_records = 0,
      dry_run = False\<rparr>"

text \<open>
  A stand-in for \<open>json.loads\<close> on the texts the concrete runs hold, with what
  \<open>json.loads\<close> of Python 3.11 does on each:
  \<^item> \<open>null\<close> and \<open>42\<close> are parsed;
  \<^item> a line of 4301 digits \<open>1\<close> raises a plain \<open>ValueError\<close>;
  \<^item> a text that opens a brace and goes on with a lowercase letter, such as \<open>{bad\<close>,
    raises \<open>JSONDecodeError\<close> at its second character;
  \<^item> the empty text raises \<open>JSONDecodeError\<close> at its start.

  On any other text it is not meant to be used.
\<close>

definition digits_4301 :: pystr where
  "digits_4301 = replicate 4301 49"

definition example_loads :: "pystr \<Rightarrow> loads_outcome" where
  "example_loads s =
     (if s = ustr ''null'' then Parsed JNull
      else if s = ustr ''42'' then Parsed (JInt 42)
      else if length s = 4301 \<and> list_all (\<lambda>c. c = 49) s
      then Raises (ValueError (ustr ''Exceeds the limit (4300 digits) for integer string conversion: value has 4301 digits; use sys.set_int_max_str_digits() to increase the limit''))
      else if take 1 s = ustr ''{'' \<and> list_all ascii_lower (take 1 (drop 1 s)) \<and> 2 \<le> length s
      then DecodeError (ustr ''Expecting property name enclosed in double quotes: line 1 column 2 (char 1)'')
      else DecodeError (ustr ''Expecting value: line 1 column 1 (char 0)''))"

text \<open>The directory of a path and its last component.\<close>

definition dirname :: "pystr \<Rightarrow> pystr" where
  "dirname p = rev (drop 1 (dropWhile (\<lambda>c. c \<noteq> 47) (rev p)))"

definition basename :: "pystr \<Rightarrow> pystr" where
  "basename p = rev (takeWhile (\<lambda>c. c \<noteq> 47) (rev p))"

text \<open>
  An environment whose input is the directory \<open>root\<close>, holding the named files, each
  with its lines or \<open>None\<close> when opening it raises \<open>OSError\<close>, and no output file
  yet. The
  output file can be opened and every write succeeds. Once the output file is created, a
  walk of \<open>root\<close> finds it too if it lies under \<open>root\<close>: first among the files of
  \<open>root\<close>, or in its own directory after \<open>root\<close>.
\<close>

definition dir_files ::
  "pystr \<Rightarrow> (pystr \<times> pystr list option) list \<Rightarrow> pystr \<Rightarrow> pyerror + pystr list" where
  "dir_files root files p =
     (case map_of (map (\<lambda>f. (path_join root (fst f), snd f)) files) p of
        Some (Some lines) \<Rightarrow> Inr lines
      | _ \<Rightarrow> Inl (OSError p))"

definition dir_env :: "pystr \<Rightarrow> (pystr \<times> pystr list option) list \<Rightarrow> env" where
  "dir_env root files =
     \<lparr>fs = \<lparr>isfile = (\<lambda>p. False),
             walk = (\<lambda>r. if r = root then [(root, map fst files)] else []),
             read_lines = dir_files root files\<rparr>,
      json_loads = example_loads,
      open_output = (\<lambda>out. Some
        \<lparr>view = \<lparr>isfile = (\<lambda>p. p = out),
                  walk = (\<lambda>r. if r \<noteq> root then []
                               else if dirname out = root
                               then [(root, basename out # map fst files)]
                               else if take (length root + 1) out = root @ [47]
                               then [(root, map fst files), (dirname out, [basename out])]
                               else [(root, map fst files)]),
                  read_lines = dir_files root files\<rparr>,
         names_output = (\<lambda>p. p = out)\<rparr>),
      write_result = (\<lambda>n j. WriteOk)\<rparr>"

text \<open>An environment whose input is the regular file \<open>path\<close> with the given lines.\<close>

definition file_env :: "pystr \<Rightarrow> pystr list \<Rightarrow> env" where
  "file_env path lines =
     \<lparr>fs = \<lparr>isfile = (\<lambda>p. p = path),
             walk = (\<lambda>r. []),
             read_lines = (\<lambda>p. if p = path then Inr lines else Inl (OSError p))\<rparr>,
      json_loads = example_loads,
      open_output = (\<lambda>out. Some
        \<lparr>view = \<lparr>isfile = (\<lambda>p. p = path \<or> p = out),
                  walk = (\<lambda>r. []),
                  read_lines = (\<lambda>p. if p = path then Inr lines else Inl (OSError p))\<rparr>,
         names_output = (\<lambda>p. p = out)\<rparr>),
      write_result = (\<lambda>n j. WriteOk)\<rparr>"

text \<open>The same environment with an output path that cannot be opened.\<close>

definition with_unwritable_output :: "env \<Rightarrow> env" where
  "with_unwritable_output e = e\<lparr>open_output := (\<lambda>p. None)\<rparr>"

section \<open>Evaluating concrete inputs\<close>

text \<open>The defining equations that a concrete run unfolds.\<close>

lemmas string_eval = ustr_def strip_def is_space_def split_ws_def first_part_def index_of_def
  str_int_def str_bool_def slice_to_def nat_digits.simps

lemmas char_eval = ascii_upper_def ascii_lower_def ascii_digit_def ascii_alnum_def
  ascii_tolower_def ascii_ci_extra_def is_alpha_def is_alnum_def is_word_def py_isupper_def
  py_lower_def ci_match_def

lemmas matcher_eval = re_escape_def at_boundary_def match_pattern_def finditer_def
  finditer_from.simps group0_def has_cjk_def keyword_part_def build_matcher_def
  detect_matches_def

lemmas record_eval = dict_get_def dict_set_def filter_record_fields_def
  filter_record_for_output_def extract_text_from_record_def flatten_strings_def visit.simps

lemmas reader_eval = splitext_ext_def path_join_def iter_files_def iter_jsonl_records_def
  iter_txt_records_def load_json_file_def read_input_def dry_surroundings_def yield_def
  caught_as_io_or_value_error_def

lemmas driver_eval = extract_meta_def out_record_def resolve_reader_def split_commas_def
  initial_state_def main_def scan_records.simps scan_files.simps has_reader_def
  DEFAULT_KEYWORDS_EN_def
  DEFAULT_KEYWORDS_ZH_def

lemmas example_eval = ascii_tables_def default_args_def example_loads_def dir_env_def
  dir_files_def file_env_def with_unwritable_output_def dirname_def basename_def

text \<open>Facts that settle every question a concrete run asks about the line of 4301 digits.\<close>

lemma digits_4301_eq_iff: "(digits_4301 = xs) = (length xs = 4301 \<and> list_all (\<lambda>c. c = 49) xs)"
proof
  assume "digits_4301 = xs"
  then show "length xs = 4301 \<and> list_all (\<lambda>c. c = 49) xs"
    by (auto simp: digits_4301_def list_all_iff)
next
  assume a: "length xs = 4301 \<and> list_all (\<lambda>c. c = 49) xs"
  then have "replicate (length xs) 49 = xs"
    by (intro replicate_length_same) (simp add: list_all_iff)
  with a show "digits_4301 = xs" by (simp add: digits_4301_def)
qed

lemma length_digits_4301: "length digits_4301 = 4301"
  by (simp add: digits_4301_def)

lemma list_all_digits_4301: "list_all (\<lambda>c. c = 49) digits_4301"
  by (simp add: digits_4301_def list_all_iff)

lemma dropWhile_space_digits_4301: "dropWhile is_space digits_4301 = digits_4301"
  by (simp add: digits_4301_def is_space_def)

lemma rev_digits_4301: "rev digits_4301 = digits_4301"
  by (simp add: digits_4301_def)

lemma digits_4301_nonempty: "digits_4301 \<noteq> []"
  by (simp add: digits_4301_def)

lemmas digits_eval = digits_4301_eq_iff length_digits_4301 list_all_digits_4301
  dropWhile_space_digits_4301 rev_digits_4301 digits_4301_nonempty

section \<open>Properties of the Text Flattener\<close>

lemma take_append_budget:
  "(xs @ take (n - length xs) a) @ take (n - length (xs @ take (n - length xs) a)) b
     = xs @ take (n - length xs) (a @ b)"
  by (simp add: min_def) 

lemma take_append_key:
  "length kf \<le> n - length xs \<Longrightarrow>
   (xs @ kf) @ take (n - length (xs @ kf)) a = xs @ take (n - length xs) (kf @ a)"
  by simp

lemma visit_prefix:
  "visit m v out = out @ take (nat m - length out) (spec_fragments v)"
  "visit_items m kvs out = out @ take (nat m - length out) (spec_fragments_items kvs)"
  "visit_seq m vs out = out @ take (nat m - length out) (spec_fragments_seq vs)"
proof (induction m v out and m kvs out and m vs out rule: visit_visit_items_visit_seq.induct)
  case (1 m v out)
  show ?case
  proof (cases "int (length out) \<ge> m")
    case True
    then have "nat m - length out = 0" by simp
    with True show ?thesis by (simp add: visit.simps)
  next
    case False
    then obtain k where k: "nat m - length out = Suc k" by (cases "nat m - length out") auto
    show ?thesis
    proof (cases v)
      case (JDict kvs)
      with False 1(1) show ?thesis by (simp add: visit.simps)
    next
      case (JList vs)
      with False 1(2) show ?thesis by (simp add: visit.simps)
    qed (use False k in \<open>simp_all add: visit.simps\<close>)
  qed
next
  case (2 m out)
  show ?case by simp
next
  case (3 m k vv rest out)
  show ?case
  proof (cases "int (length out) \<ge> m")
    case True
    then have "nat m - length out = 0" by simp
    with True show ?thesis by simp
  next
    case False
    define kf where "kf = (if strip k \<noteq> [] then [strip k] else [])"
    have o1: "(if strip k \<noteq> [] then out @ [strip k] else out) = out @ kf"
      by (simp add: kf_def)
    have kl: "length kf \<le> nat m - length out"
      using False by (auto simp: kf_def)
    have a: "visit m vv (out @ kf) = (out @ kf) @ take (nat m - length (out @ kf)) (spec_fragments vv)"
      using 3(1)[OF False] by (simp only: o1)
    have b: "visit_items m rest (visit m vv (out @ kf))
        = visit m vv (out @ kf) @ take (nat m - length (visit m vv (out @ kf))) (spec_fragments_items rest)"
      using 3(2)[OF False] by (simp only: o1)
    have "visit_items m ((k, vv) # rest) out = visit_items m rest (visit m vv (out @ kf))"
      using False by (simp add: o1)
    also have "\<dots> = visit m vv (out @ kf)
          @ take (nat m - length (visit m vv (out @ kf))) (spec_fragments_items rest)"
      by (rule b)
    also have "\<dots> = ((out @ kf) @ take (nat m - length (out @ kf)) (spec_fragments vv))
          @ take (nat m - length ((out @ kf) @ take (nat m - length (out @ kf)) (spec_fragments vv)))
              (spec_fragments_items rest)"
      by (simp only: a)
    also have "\<dots> = (out @ kf) @ take (nat m - length (out @ kf)) (spec_fragments vv @ spec_fragments_items rest)"
      by (rule take_append_budget)
    also have "\<dots> = out @ take (nat m - length out) (kf @ spec_fragments vv @ spec_fragments_items rest)"
      by (rule take_append_key [OF kl])
    finally show ?thesis by (simp add: kf_def)
  qed
next
  case (4 m out)
  show ?case by simp
next
  case (5 m vv rest out)
  show ?case
  proof (cases "int (length out) \<ge> m")
    case True
    then have "nat m - length out = 0" by simp
    with True show ?thesis by simp
  next
    case False
    have "visit_seq m (vv # rest) out = visit_seq m rest (visit m vv out)"
      using False by simp
    also have "\<dots> = (out @ take (nat m - length out) (spec_fragments vv))
         @ take (nat m - length (out @ take (nat m - length out) (spec_fragments vv))) (spec_fragments_seq rest)"
      using 5(1)[OF False] 5(2)[OF False] by simp
    also have "\<dots> = out @ take (nat m - length out) (spec_fragments vv @ spec_fragments_seq rest)"
      by (rule take_append_budget)
    finally show ?thesis by simp
  qed
qed

lemma strip_trimmed: "strip s \<noteq> [] \<Longrightarrow> trimmed (strip s)"
proof -
  assume ne: "strip s \<noteq> []"
  define a where "a = dropWhile is_space s"
  define b where "b = dropWhile is_space (rev a)"
  have sb: "strip s = rev b" by (simp add: strip_def a_def b_def)
  with ne have bne: "b \<noteq> []" by simp
  then have rane: "rev a \<noteq> []" by (auto simp: b_def)
  have hb: "\<not> is_space (hd b)" using bne unfolding b_def by (rule hd_dropWhile)
  have ane: "a \<noteq> []" using rane by simp
  have ha: "\<not> is_space (hd a)" using ane unfolding a_def by (rule hd_dropWhile)
  obtain p where p: "rev a = p @ b"
    unfolding b_def by (metis takeWhile_dropWhile_id)
  have "last b = last (rev a)" using p bne by simp
  also have "\<dots> = hd a" using rane by (simp add: last_rev)
  finally have lb: "\<not> is_space (last b)" using ha by simp
  show ?thesis using bne hb lb by (simp add: trimmed_def sb last_rev hd_rev)
qed

lemma nat_digits_range: "c \<in> set (nat_digits n) \<Longrightarrow> 48 \<le> c \<and> c \<le> 57"
proof (induction n rule: nat_digits.induct)
  case (1 n)
  show ?case
  proof (cases "n < 10")
    case True
    with 1(2) show ?thesis by (subst (asm) nat_digits.simps) simp
  next
    case False
    from 1(2) False have "c \<in> set (nat_digits (n div 10)) \<or> c = 48 + n mod 10"
      by (subst (asm) nat_digits.simps) auto
    then show ?thesis
    proof
      assume "c \<in> set (nat_digits (n div 10))"
      with 1(1) False show ?thesis by simp
    next
      assume "c = 48 + n mod 10"
      moreover have "n mod 10 < 10" by simp
      ultimately show ?thesis by linarith
    qed
  qed
qed

lemma nat_digits_nonempty: "nat_digits n \<noteq> []"
  by (subst nat_digits.simps) simp

lemma no_space_trimmed: "s \<noteq> [] \<Longrightarrow> \<forall>c \<in> set s. \<not> is_space c \<Longrightarrow> trimmed s"
  by (simp add: trimmed_def)

lemma digit_not_space: "48 \<le> c \<Longrightarrow> c \<le> 57 \<Longrightarrow> \<not> is_space c"
  by (auto simp: is_space_def)

lemma str_int_trimmed: "trimmed (str_int i)"
proof (rule no_space_trimmed)
  show "str_int i \<noteq> []" by (simp add: str_int_def nat_digits_nonempty)
  show "\<forall>c \<in> set (str_int i). \<not> is_space c"
  proof
    fix c assume "c \<in> set (str_int i)"
    then have "c = 45 \<or> (48 \<le> c \<and> c \<le> 57)"
      by (auto simp: str_int_def dest: nat_digits_range split: if_splits)
    then show "\<not> is_space c" by (auto simp: is_space_def)
  qed
qed

lemma str_bool_trimmed: "trimmed (str_bool b)"
  by (simp add: str_bool_def trimmed_def ustr_def is_space_def)

lemma float_str_trimmed: "trimmed (float_str f)"
proof -
  have "Rep_pyfloat f \<noteq> [] \<and> (\<forall>c \<in> set (Rep_pyfloat f). \<not> is_space c)"
    using Rep_pyfloat [of f] by simp
  then show ?thesis by (simp add: float_str.rep_eq no_space_trimmed)
qed

lemma spec_fragments_trimmed:
  "\<forall>s \<in> set (spec_fragments v). trimmed s"
  "\<forall>s \<in> set (spec_fragments_items kvs). trimmed s"
  "\<forall>s \<in> set (spec_fragments_seq vs). trimmed s"
  by (induction v and kvs and vs rule: spec_fragments_spec_fragments_items_spec_fragments_seq.induct)
     (auto simp: strip_trimmed str_int_trimmed str_bool_trimmed float_str_trimmed)

lemma flatten_strings_eq_take:
  "0 \<le> max_items \<Longrightarrow> flatten_strings v max_items = take (nat max_items) (spec_fragments v)"
  by (simp add: flatten_strings_def slice_to_def visit_prefix(1))

text \<open>
  C6. For every record value and every positive maximum fragment count,
  \<open>flatten_strings\<close> returns the first \<open>max_items\<close> fragments of the value in
  depth-first order, each of them non-empty and trimmed; when the value has more
  fragments than the maximum, the result has exactly the maximum number of them.
\<close>

theorem flatten_strings_depth_first_prefix:
  assumes "0 < max_items"
  shows "flatten_strings v max_items = take (nat max_items) (spec_fragments v)
       \<and> (\<forall>s \<in> set (flatten_strings v max_items). trimmed s)
       \<and> (length (spec_fragments v) > nat max_items \<longrightarrow>
            length (flatten_strings v max_items) = nat max_items)"
proof -
  have eq: "flatten_strings v max_items = take (nat max_items) (spec_fragments v)"
    using assms by (simp add: flatten_strings_eq_take)
  have tr: "\<forall>s \<in> set (flatten_strings v max_items). trimmed s"
    unfolding eq using spec_fragments_trimmed(1) [of v] by (auto dest: in_set_takeD)
  show ?thesis using eq tr by simp
qed

theorem flatten_strings_depth_first_prefix_witness:
  "(0::int) < 3
   \<and> flatten_strings (JDict [(ustr ''q'', JList [JStr (ustr '' x ''), JInt 7, JStr (ustr ''z'')])]) 3
       = [ustr ''q'', ustr ''x'', ustr ''7'']
   \<and> length (flatten_strings
         (JDict [(ustr ''q'', JList [JStr (ustr '' x ''), JInt 7, JStr (ustr ''z'')])]) 3) = 3"
  using flatten_strings_depth_first_prefix
    [of 3 "JDict [(ustr ''q'', JList [JStr (ustr '' x ''), JInt 7, JStr (ustr ''z'')])]"]
  by (simp add: ustr_def strip_def is_space_def str_int_def nat_digits.simps)

section \<open>Properties of the Keyword Matcher\<close>

lemma first_some_SomeD: "first_some xs = Some y \<Longrightarrow> Some y \<in> set xs"
  by (induction xs rule: first_some.induct) auto


lemma space_run_le: "length (takeWhile is_space (drop i t)) \<le> length t - i"
  by (metis length_drop length_takeWhile_le)

lemma first_some_map_SomeD:
  "first_some (map f xs) = Some y \<Longrightarrow> \<exists>x \<in> set xs. f x = Some y"
  using first_some_SomeD [of "map f xs" y] by auto

lemma match_atoms_spaces_SomeD:
  assumes "match_atoms U (Spaces # rest) t i = Some j"
  shows "\<exists>k. 1 \<le> k \<and> k \<le> length (takeWhile is_space (drop i t))
            \<and> match_atoms U rest t (i + k) = Some j"
proof -
  let ?n = "length (takeWhile is_space (drop i t))"
  from assms have "first_some (map (\<lambda>k. match_atoms U rest t (i + k)) (rev [1 ..< Suc ?n])) = Some j"
    by simp
  then obtain k where "k \<in> set (rev [1 ..< Suc ?n])" "match_atoms U rest t (i + k) = Some j"
    using first_some_map_SomeD by fast
  then show ?thesis by auto
qed

lemma match_atoms_ge:
  "match_atoms U as t i = Some j \<Longrightarrow> i \<le> j"
proof (induction as arbitrary: i)
  case Nil
  then show ?case by simp
next
  case (Cons a as)
  show ?case
  proof (cases a)
    case (Lit p)
    with Cons.prems have "match_atoms U as t (Suc i) = Some j" by (simp split: if_splits)
    then have "Suc i \<le> j" by (rule Cons.IH)
    then show ?thesis by simp
  next
    case WordB
    with Cons.prems have "match_atoms U as t i = Some j" by (simp split: if_splits)
    then show ?thesis by (rule Cons.IH)
  next
    case Spaces
    with Cons.prems obtain k where "match_atoms U as t (i + k) = Some j"
      using match_atoms_spaces_SomeD by blast
    then have "i + k \<le> j" by (rule Cons.IH)
    then show ?thesis by simp
  qed
qed

lemma match_atoms_end:
  "match_atoms U as t i = Some j \<Longrightarrow> i \<le> length t \<Longrightarrow> j \<le> length t"
proof (induction as arbitrary: i)
  case Nil
  then show ?case by simp
next
  case (Cons a as)
  show ?case
  proof (cases a)
    case (Lit p)
    with Cons.prems have "match_atoms U as t (Suc i) = Some j" "Suc i \<le> length t"
      by (simp_all split: if_splits)
    then show ?thesis by (rule Cons.IH)
  next
    case WordB
    with Cons.prems have "match_atoms U as t i = Some j" by (simp split: if_splits)
    then show ?thesis using Cons.prems(2) by (rule Cons.IH)
  next
    case Spaces
    with Cons.prems obtain k where k: "k \<le> length (takeWhile is_space (drop i t))"
        "match_atoms U as t (i + k) = Some j"
      using match_atoms_spaces_SomeD by blast
    have "length (takeWhile is_space (drop i t)) \<le> length t - i" by (rule space_run_le)
    with k(1) Cons.prems(2) have "i + k \<le> length t" by linarith
    with k(2) show ?thesis by (rule Cons.IH)
  qed
qed

lemma match_atoms_consumes:
  "match_atoms U as t i = Some j \<Longrightarrow> \<exists>p. Lit p \<in> set as \<Longrightarrow> i < j"
proof (induction as arbitrary: i)
  case Nil
  then show ?case by simp
next
  case (Cons a as)
  show ?case
  proof (cases a)
    case (Lit p)
    with Cons.prems have "match_atoms U as t (Suc i) = Some j" by (simp split: if_splits)
    then have "Suc i \<le> j" by (rule match_atoms_ge)
    then show ?thesis by simp
  next
    case WordB
    with Cons.prems have "match_atoms U as t i = Some j" "\<exists>p. Lit p \<in> set as"
      by (simp_all split: if_splits)
    then show ?thesis by (rule Cons.IH)
  next
    case Spaces
    with Cons.prems obtain k where k: "1 \<le> k" "match_atoms U as t (i + k) = Some j"
      using match_atoms_spaces_SomeD by blast
    then have "i + k \<le> j" using match_atoms_ge by blast
    with k(1) show ?thesis by simp
  qed
qed

lemma dropWhile_hd_id: "xs \<noteq> [] \<Longrightarrow> \<not> P (hd xs) \<Longrightarrow> dropWhile P xs = xs"
  by (cases xs) simp_all

lemma trimmed_strip_id: "trimmed s \<Longrightarrow> strip s = s"
proof -
  assume t: "trimmed s"
  then have ne: "s \<noteq> []" and h: "\<not> is_space (hd s)" and l: "\<not> is_space (last s)"
    by (simp_all add: trimmed_def)
  have a: "dropWhile is_space s = s" using ne h by (rule dropWhile_hd_id)
  have "rev s \<noteq> []" using ne by simp
  moreover have "\<not> is_space (hd (rev s))" using ne l by (simp add: hd_rev)
  ultimately have b: "dropWhile is_space (rev s) = rev s" by (rule dropWhile_hd_id)
  show ?thesis by (simp add: strip_def a b)
qed

lemma strip_Nil: "strip [] = []"
  by (simp add: strip_def)

lemma strip_strip: "strip (strip s) = strip s"
proof (cases "strip s = []")
  case True
  then show ?thesis by (simp add: strip_Nil)
next
  case False
  then show ?thesis by (simp add: strip_trimmed trimmed_strip_id)
qed

lemma split_ws_acc_nonempty: "tok \<in> set (split_ws_acc cur s) \<Longrightarrow> tok \<noteq> []"
  by (induction cur s rule: split_ws_acc.induct) (auto split: if_splits)

lemma join_has_lit:
  "ts \<noteq> [] \<Longrightarrow> hd ts \<noteq> [] \<Longrightarrow> \<forall>a \<in> set (hd ts). \<exists>p. a = Lit p \<Longrightarrow> \<exists>p. Lit p \<in> set (join sep ts)"
proof (cases ts)
  case Nil
  assume "ts \<noteq> []" with Nil show ?thesis by simp
next
  case (Cons x xs)
  assume "hd ts \<noteq> []" and lit: "\<forall>a \<in> set (hd ts). \<exists>p. a = Lit p"
  with Cons obtain a where a: "a \<in> set x" by (cases x) auto
  with lit Cons obtain p where "a = Lit p" by auto
  with a have "Lit p \<in> set x" by simp
  then show ?thesis using Cons by (cases xs) auto
qed

lemma keyword_part_has_lit:
  assumes "strip kw \<noteq> []"
  shows "\<exists>p. Lit p \<in> set (keyword_part U kw)"
proof -
  from assms have kne: "kw \<noteq> []" by (auto simp: strip_def)
  obtain c where c: "c \<in> set (strip kw)" using assms by (cases "strip kw") auto
  obtain d where d: "d \<in> set kw" using kne by (cases kw) auto
  have esc: "\<exists>p. Lit p \<in> set (re_escape (strip kw))" using c by (auto simp: re_escape_def)
  have esc': "\<exists>p. Lit p \<in> set (re_escape kw)" using d by (auto simp: re_escape_def)
  have tok: "length (split_ws (strip kw)) > 1 \<Longrightarrow>
      \<exists>p. Lit p \<in> set (join [Spaces] (map re_escape (split_ws (strip kw))))"
  proof -
    assume len: "length (split_ws (strip kw)) > 1"
    then obtain x xs where x: "split_ws (strip kw) = x # xs" by (cases "split_ws (strip kw)") auto
    then have "x \<noteq> []" using split_ws_acc_nonempty [of x "[]" "strip kw"] by (simp add: split_ws_def)
    then show ?thesis
      using x by (intro join_has_lit) (auto simp: re_escape_def)
  qed
  show ?thesis
    using esc esc' tok by (auto simp: keyword_part_def Let_def)
qed

lemma build_matcher_parts:
  "fst (build_matcher U keywords) = Alternatives parts \<Longrightarrow> part \<in> set parts 
   \<Longrightarrow> \<exists>p. Lit p \<in> set part"
proof -
  assume a: "fst (build_matcher U keywords) = Alternatives parts" and b: "part \<in> set parts"
  let ?cleaned = "filter (\<lambda>kw. kw \<noteq> []) (map strip keywords)"
  from a have parts: "parts = map (keyword_part U) ?cleaned"
    by (auto simp: build_matcher_def Let_def split: if_splits)
  with b obtain kw where kw: "kw \<in> set ?cleaned" "part = keyword_part U kw" by auto
  then obtain k0 where "kw = strip k0" "kw \<noteq> []" by auto
  then have "strip kw \<noteq> []" by (simp add: strip_strip)
  then show ?thesis using kw(2) keyword_part_has_lit by simp
qed

lemma match_pattern_build_matcher:
  assumes "match_pattern U (fst (build_matcher U keywords)) t i = Some j" "i \<le> length t"
  shows "i < j \<and> j \<le> length t"
proof (cases "fst (build_matcher U keywords)")
  case MatchNothing
  with assms show ?thesis by (simp add: match_pattern_def)
next
  case (Alternatives parts)
  with assms(1) have "first_some (map (\<lambda>part. match_atoms U part t i) parts) = Some j"
    by (simp add: match_pattern_def)
  then obtain part where part: "part \<in> set parts" "match_atoms U part t i = Some j"
    using first_some_map_SomeD by fast
  from build_matcher_parts [OF Alternatives part(1)] have "\<exists>p. Lit p \<in> set part" .
  then show ?thesis using part(2) assms(2) match_atoms_consumes match_atoms_end by blast
qed

lemma finditer_from_sound:
  "m \<in> set (finditer_from U p t k) \<Longrightarrow> k \<le> fst m \<and> fst m \<le> length t \<and> match_pattern U p t (fst m) = Some (snd m)"
proof (induction U p t k rule: finditer_from.induct)
  case (1 U p t i)
  show ?case
  proof (cases "length t < i")
    case True
    with 1(3) show ?thesis by (simp add: finditer_from.simps)
  next
    case False
    show ?thesis
    proof (cases "match_pattern U p t i")
      case None
      with False 1(3) have "m \<in> set (finditer_from U p t (Suc i))"
        by (simp add: finditer_from.simps [of U p t i])
      with 1(1) [OF False None] show ?thesis by simp
    next
      case (Some j)
      with False 1(3) have "m = (i, j) \<or> m \<in> set (finditer_from U p t (if i < j then j else Suc i))"
        by (simp add: finditer_from.simps [of U p t i])
      then show ?thesis
      proof
        assume "m = (i, j)" 
        with Some False show ?thesis by simp
      next
        assume "m \<in> set (finditer_from U p t (if i < j then j else Suc i))"
        with 1(2) [OF False Some] show ?thesis by (auto split: if_splits)
      qed
    qed
  qed
qed

lemma collect_hits_subset: "set (collect_hits mh ms hits) \<subseteq> set hits \<union> set ms"
  by (induction mh ms hits rule: collect_hits.induct) auto



lemma detect_matches_sound:
  "h \<in> set (detect_matches U p t mh) \<Longrightarrow> \<exists>m \<in> set (finditer U p t). h = group0 t m"
  using collect_hits_subset [of mh "map (group0 t) (finditer U p t)" "[]"]
  by (auto simp: detect_matches_def)

text \<open>
  C5. For every list of raw keywords, empty or all blank included, the pattern that
  \<open>build_matcher\<close> returns never matches the empty string: no match of it starts and
  ends at the same position of any text, every span \<open>finditer\<close> yields is non-empty
  and inside the text, and no hit of \<open>detect_matches\<close> is the empty string.
\<close>

theorem build_matcher_never_matches_empty:
  "match_pattern U (fst (build_matcher U keywords)) text i \<noteq> Some i
   \<and> (\<forall>m \<in> set (finditer U (fst (build_matcher U keywords)) text). fst m < snd m \<and> snd m \<le> length text)
   \<and> [] \<notin> set (detect_matches U (fst (build_matcher U keywords)) text max_hits)"
proof -
  let ?P = "fst (build_matcher U keywords)"
  have a: "match_pattern U ?P text i \<noteq> Some i"
  proof
    assume m: "match_pattern U ?P text i = Some i"
    show False
    proof (cases ?P)
      case MatchNothing
      with m show False by (simp add: match_pattern_def)
    next
      case (Alternatives parts)
      with m have "first_some (map (\<lambda>part. match_atoms U part text i) parts) = Some i"
        by (simp add: match_pattern_def)
      then obtain part where part: "part \<in> set parts" "match_atoms U part text i = Some i"
        using first_some_map_SomeD by fast
      from build_matcher_parts [OF Alternatives part(1)] have "\<exists>p. Lit p \<in> set part" .
      with part(2) have "i < i" by (rule match_atoms_consumes)
      then show False by simp
    qed
  qed
  have b: "\<forall>m \<in> set (finditer U ?P text). fst m < snd m \<and> snd m \<le> length text"
  proof
    fix m assume "m \<in> set (finditer U ?P text)"
    then have "fst m \<le> length text \<and> match_pattern U ?P text (fst m) = Some (snd m)"
      using finditer_from_sound [of m U "?P" "text" 0] by (simp add: finditer_def)
    then show "fst m < snd m \<and> snd m \<le> length text"
      using match_pattern_build_matcher by blast
  qed
  have c: "[] \<notin> set (detect_matches U ?P text max_hits)"
  proof
    assume "[] \<in> set (detect_matches U ?P text max_hits)"
    then obtain m where m: "m \<in> set (finditer U ?P text)" "group0 text m = []"
      using detect_matches_sound by metis
    with b have "fst m < snd m" "snd m \<le> length text" by auto
    with m(2) show False by (auto simp: group0_def)
  qed
  show ?thesis using a b c by blast
qed

theorem build_matcher_never_matches_empty_witness:
  "match_pattern ascii_tables (fst (build_matcher ascii_tables [ustr ''MI'', ustr ''  ''])) (ustr ''an MI'') 3
      \<noteq> Some 3
   \<and> finditer ascii_tables (fst (build_matcher ascii_tables [ustr ''MI'', ustr ''  ''])) (ustr ''an MI'')
      = [(3, 5)]
   \<and> detect_matches ascii_tables (fst (build_matcher ascii_tables [ustr ''MI'', ustr ''  ''])) (ustr ''an MI'') 20
      = [ustr ''MI'']
   \<and> finditer ascii_tables (fst (build_matcher ascii_tables [ustr ''  ''])) (ustr ''an MI'') = []"
  using build_matcher_never_matches_empty
    [of ascii_tables "[ustr ''MI'', ustr ''  '']" "ustr ''an MI''" 3 20]
  by (simp add: ascii_tables_def string_eval char_eval matcher_eval Let_def)















section \<open>Properties of the Record Source Reader\<close>

lemma upt_0_Suc_map: "[0 ..< Suc m] = 0 # map Suc [0 ..< m]"
proof -
  have "[0 ..< Suc m] = 0 # [Suc 0 ..< Suc m]" by (simp add: upt_conv_Cons del: upt_Suc)
  then show ?thesis by (simp only: map_Suc_upt)
qed

lemma filter_positions_Cons:
  "map (\<lambda>i. n + i) (filter (\<lambda>i. strip ((line # rest) ! i) \<noteq> []) [0 ..< Suc m])
     = (if strip line \<noteq> [] then [n] else [])
       @ map (\<lambda>i. Suc n + i) (filter (\<lambda>i. strip (rest ! i) \<noteq> []) [0 ..< m])"
proof -
  have f: "filter (\<lambda>i. strip ((line # rest) ! i) \<noteq> []) (map Suc [0 ..< m])
         = map Suc (filter (\<lambda>i. strip (rest ! i) \<noteq> []) [0 ..< m])"
    by (simp add: filter_map comp_def)
  show ?thesis by (simp only: upt_0_Suc_map) (simp add: f comp_def)
qed

lemma jsonl_lines_Cons:
  "jsonl_lines loads n (line # rest) =
     (if strip line = [] then jsonl_lines loads (Suc n) rest
      else case loads (strip line) of
             Parsed v \<Rightarrow> yield (n, v) (jsonl_lines loads (Suc n) rest)
           | DecodeError m \<Rightarrow>
               yield (n, JDict [(ustr ''text'', JStr (strip line)),
                                (ustr ''_parse_error'', JStr (ustr ''invalid_json: '' @ m))])
                     (jsonl_lines loads (Suc n) rest)
           | Raises err \<Rightarrow> ([], Some err))"
  by (simp add: Let_def)

lemma jsonl_lines_before:
  "k < length lines \<Longrightarrow> strip (lines ! k) \<noteq> [] \<Longrightarrow>
   loads (strip (lines ! k)) = DecodeError msg \<Longrightarrow>
   \<forall>i<k. strip (lines ! i) \<noteq> [] \<longrightarrow> (\<forall>err. loads (strip (lines ! i)) \<noteq> Raises err) \<Longrightarrow>
   \<exists>before after.
     fst (jsonl_lines loads n lines)
       = before @ (n + k, JDict [(ustr ''text'', JStr (strip (lines ! k))),
                                 (ustr ''_parse_error'', JStr (ustr ''invalid_json: '' @ msg))])
                  # after
     \<and> map fst before = map (\<lambda>i. n + i) (filter (\<lambda>i. strip (lines ! i) \<noteq> []) [0 ..< k])"
proof (induction lines arbitrary: n k)
  case Nil
  then show ?case by simp
next
  case (Cons line rest)
  show ?case
  proof (cases k)
    case 0
    with Cons.prems(2,3) have "fst (jsonl_lines loads n (line # rest))
        = [] @ (n + k, JDict [(ustr ''text'', JStr (strip ((line # rest) ! k))),
                              (ustr ''_parse_error'', JStr (ustr ''invalid_json: '' @ msg))])
               # fst (jsonl_lines loads (Suc n) rest)"
      by (simp add: jsonl_lines_Cons yield_def del: jsonl_lines.simps)
    moreover have "map fst ([] :: (nat \<times> json) list)
        = map (\<lambda>i. n + i) (filter (\<lambda>i. strip ((line # rest) ! i) \<noteq> []) [0 ..< k])"
      using 0 by simp
    ultimately show ?thesis by blast
  next
    case (Suc k')
    with Cons.prems have p: "k' < length rest" "strip (rest ! k') \<noteq> []"
      "loads (strip (rest ! k')) = DecodeError msg" by simp_all
    have q: "\<forall>i<k'. strip (rest ! i) \<noteq> [] \<longrightarrow> (\<forall>err. loads (strip (rest ! i)) \<noteq> Raises err)"
    proof (intro allI impI)
      fix i err assume "i < k'" "strip (rest ! i) \<noteq> []"
      then show "loads (strip (rest ! i)) \<noteq> Raises err"
        using Cons.prems(4) [rule_format, of "Suc i" err] Suc by simp
    qed
    from Cons.IH [OF p q, of "Suc n"] obtain before after where
      ih: "fst (jsonl_lines loads (Suc n) rest)
             = before @ (Suc n + k', JDict [(ustr ''text'', JStr (strip (rest ! k'))),
                 (ustr ''_parse_error'', JStr (ustr ''invalid_json: '' @ msg))]) # after"
      and ihm: "map fst before
             = map (\<lambda>i. Suc n + i) (filter (\<lambda>i. strip (rest ! i) \<noteq> []) [0 ..< k'])"
      by blast
    have h0: "strip line \<noteq> [] \<longrightarrow> (\<forall>err. loads (strip line) \<noteq> Raises err)"
      using Cons.prems(4) [rule_format, of 0] Suc by simp
    have "\<exists>pre. fst (jsonl_lines loads n (line # rest))
                 = pre @ fst (jsonl_lines loads (Suc n) rest)
               \<and> map fst pre = (if strip line \<noteq> [] then [n] else [])"
    proof (cases "strip line = []")
      case True
      then show ?thesis by (simp add: jsonl_lines_Cons del: jsonl_lines.simps)
    next
      case False
      with h0 show ?thesis
        by (cases "loads (strip line)")
           (simp_all add: jsonl_lines_Cons yield_def del: jsonl_lines.simps)
    qed
    then obtain pre where pre: "fst (jsonl_lines loads n (line # rest))
                 = pre @ fst (jsonl_lines loads (Suc n) rest)"
      and prem: "map fst pre = (if strip line \<noteq> [] then [n] else [])" by blast
    have a: "fst (jsonl_lines loads n (line # rest))
        = (pre @ before) @ (n + k, JDict [(ustr ''text'', JStr (strip ((line # rest) ! k))),
             (ustr ''_parse_error'', JStr (ustr ''invalid_json: '' @ msg))]) # after"
      using pre ih Suc by simp
    have b: "map fst (pre @ before)
        = map (\<lambda>i. n + i) (filter (\<lambda>i. strip ((line # rest) ! i) \<noteq> []) [0 ..< k])"
      by (simp only: Suc filter_positions_Cons map_append prem ihm)
    from a b show ?thesis by blast
  qed
qed

lemma jsonl_lines_complete:
  "\<forall>i<length lines. strip (lines ! i) \<noteq> [] \<longrightarrow> (\<forall>err. loads (strip (lines ! i)) \<noteq> Raises err) \<Longrightarrow>
   snd (jsonl_lines loads n lines) = None
   \<and> map fst (fst (jsonl_lines loads n lines))
       = map (\<lambda>i. n + i) (filter (\<lambda>i. strip (lines ! i) \<noteq> []) [0 ..< length lines])"
proof (induction lines arbitrary: n)
  case Nil
  show ?case by simp
next
  case (Cons line rest)
  have q: "\<forall>i<length rest. strip (rest ! i) \<noteq> [] \<longrightarrow> (\<forall>err. loads (strip (rest ! i)) \<noteq> Raises err)"
  proof (intro allI impI)
    fix i err assume "i < length rest" "strip (rest ! i) \<noteq> []"
    then show "loads (strip (rest ! i)) \<noteq> Raises err"
      using Cons.prems [rule_format, of "Suc i" err] by simp
  qed
  note ih = Cons.IH [OF q, of "Suc n"]
  have h0: "strip line \<noteq> [] \<longrightarrow> (\<forall>err. loads (strip line) \<noteq> Raises err)"
    using Cons.prems [rule_format, of 0] by simp
  have l: "length (line # rest) = Suc (length rest)" by simp
  show ?case
  proof (cases "strip line = []")
    case True
    then show ?thesis using ih
      by (simp only: l filter_positions_Cons) (simp add: jsonl_lines_Cons del: jsonl_lines.simps)
  next
    case False
    with h0 show ?thesis using ih
      by (cases "loads (strip line)")
         (simp_all only: l filter_positions_Cons,
          simp_all add: jsonl_lines_Cons yield_def del: jsonl_lines.simps)
  qed
qed

lemma jsonl_lines_raises:
  "k < length lines \<Longrightarrow> strip (lines ! k) \<noteq> [] \<Longrightarrow> loads (strip (lines ! k)) = Raises err \<Longrightarrow>
   \<forall>i<k. strip (lines ! i) \<noteq> [] \<longrightarrow> (\<forall>err. loads (strip (lines ! i)) \<noteq> Raises err) \<Longrightarrow>
   snd (jsonl_lines loads n lines) = Some err
   \<and> map fst (fst (jsonl_lines loads n lines))
       = map (\<lambda>i. n + i) (filter (\<lambda>i. strip (lines ! i) \<noteq> []) [0 ..< k])"
proof (induction lines arbitrary: n k)
  case Nil
  then show ?case by simp
next
  case (Cons line rest)
  show ?case
  proof (cases k)
    case 0
    with Cons.prems(2,3) show ?thesis
      by (simp add: jsonl_lines_Cons del: jsonl_lines.simps)
  next
    case (Suc k')
    with Cons.prems have p: "k' < length rest" "strip (rest ! k') \<noteq> []"
      "loads (strip (rest ! k')) = Raises err" by simp_all
    have q: "\<forall>i<k'. strip (rest ! i) \<noteq> [] \<longrightarrow> (\<forall>err. loads (strip (rest ! i)) \<noteq> Raises err)"
    proof (intro allI impI)
      fix i err assume "i < k'" "strip (rest ! i) \<noteq> []"
      then show "loads (strip (rest ! i)) \<noteq> Raises err"
        using Cons.prems(4) [rule_format, of "Suc i" err] Suc by simp
    qed
    note ih = Cons.IH [OF p q, of "Suc n"]
    have h0: "strip line \<noteq> [] \<longrightarrow> (\<forall>err. loads (strip line) \<noteq> Raises err)"
      using Cons.prems(4) [rule_format, of 0] Suc by simp
    show ?thesis
    proof (cases "strip line = []")
      case True
      then show ?thesis using ih
        by (simp only: Suc filter_positions_Cons) (simp add: jsonl_lines_Cons del: jsonl_lines.simps)
    next
      case False
      with h0 show ?thesis using ih
        by (cases "loads (strip line)")
           (simp_all only: Suc filter_positions_Cons,
            simp_all add: jsonl_lines_Cons yield_def del: jsonl_lines.simps)
    qed
  qed
qed

lemma join_two_prefix: "\<exists>rest. join sep (a # b # xs) = a @ sep @ b @ rest"
  by (cases xs) auto

lemma strip_ustr_text: "strip (ustr ''text'') = ustr ''text''"
  by (simp add: ustr_def strip_def is_space_def)

lemma strip_ustr_parse_error: "strip (ustr ''_parse_error'') = ustr ''_parse_error''"
  by (simp add: ustr_def strip_def is_space_def)

lemma synthetic_fold:
  assumes "d \<in> {[], [(ustr ''text'', JStr s)], [(ustr ''_parse_error'', JStr m)],
                [(ustr ''text'', JStr s), (ustr ''_parse_error'', JStr m)],
                [(ustr ''_parse_error'', JStr m), (ustr ''text'', JStr s)]}"
  shows "foldl (\<lambda>d field. case dict_get [(ustr ''text'', JStr s), (ustr ''_parse_error'', JStr m)] field of
                             Some v \<Rightarrow> dict_set field v d
                           | None \<Rightarrow> d) d xs
           \<in> {[], [(ustr ''text'', JStr s)], [(ustr ''_parse_error'', JStr m)],
                [(ustr ''text'', JStr s), (ustr ''_parse_error'', JStr m)],
                [(ustr ''_parse_error'', JStr m), (ustr ''text'', JStr s)]}
         \<and> (ustr ''text'' \<in> set xs \<or> (ustr ''text'', JStr s) \<in> set d \<longrightarrow>
              (ustr ''text'', JStr s)
                \<in> set (foldl (\<lambda>d field. case dict_get [(ustr ''text'', JStr s), (ustr ''_parse_error'', JStr m)] field of
                             Some v \<Rightarrow> dict_set field v d
                           | None \<Rightarrow> d) d xs))"
  using assms
proof (induction xs arbitrary: d)
  case Nil
  then show ?case by simp
next
  case (Cons x xs)
  let ?g = "\<lambda>d field. case dict_get [(ustr ''text'', JStr s), (ustr ''_parse_error'', JStr m)] field of
                             Some v \<Rightarrow> dict_set field v d
                           | None \<Rightarrow> d"
  have ne: "ustr ''text'' \<noteq> ustr ''_parse_error''" by (simp add: ustr_def)
  have a: "?g d x \<in> {[], [(ustr ''text'', JStr s)], [(ustr ''_parse_error'', JStr m)],
                [(ustr ''text'', JStr s), (ustr ''_parse_error'', JStr m)],
                [(ustr ''_parse_error'', JStr m), (ustr ''text'', JStr s)]}"
    using Cons.prems ne by (auto simp: dict_get_def dict_set_def)
  have b: "x = ustr ''text'' \<or> (ustr ''text'', JStr s) \<in> set d \<Longrightarrow> (ustr ''text'', JStr s) \<in> set (?g d x)"
    using Cons.prems ne by (auto simp: dict_get_def dict_set_def)
  from Cons.IH [OF a] b show ?case by auto
qed

lemma synthetic_filtered:
  assumes "keeps_field (ustr ''text'') inc exc"
  shows "filter_record_fields [(ustr ''text'', JStr s), (ustr ''_parse_error'', JStr m)] inc exc
           \<in> {[(ustr ''text'', JStr s)],
               [(ustr ''text'', JStr s), (ustr ''_parse_error'', JStr m)],
               [(ustr ''_parse_error'', JStr m), (ustr ''text'', JStr s)]}"
proof (cases "\<exists>f others. inc = Some (f # others)")
  case True
  then obtain f others where i: "inc = Some (f # others)" by blast
  with assms have t: "ustr ''text'' \<in> set (f # others)" by (simp add: keeps_field_def)
  have e: "[] \<in> {[], [(ustr ''text'', JStr s)], [(ustr ''_parse_error'', JStr m)],
                [(ustr ''text'', JStr s), (ustr ''_parse_error'', JStr m)],
                [(ustr ''_parse_error'', JStr m), (ustr ''text'', JStr s)]}" by simp
  from synthetic_fold [OF e, of "f # others"] t
  show ?thesis unfolding i filter_record_fields_def by (auto simp del: foldl_Cons)
next
  case False
  then have "keeps_field (ustr ''text'') inc exc = (ustr ''text'' \<notin> set exc)"
    by (auto simp: keeps_field_def split: option.splits list.splits)
  with assms have t: "ustr ''text'' \<notin> set exc" by simp
  have "filter_record_fields [(ustr ''text'', JStr s), (ustr ''_parse_error'', JStr m)] inc exc
        = (if exc \<noteq> [] then filter (\<lambda>kv. fst kv \<notin> set exc)
              [(ustr ''text'', JStr s), (ustr ''_parse_error'', JStr m)]
           else [(ustr ''text'', JStr s), (ustr ''_parse_error'', JStr m)])"
    using False by (auto simp: filter_record_fields_def split: option.splits list.splits)
  then show ?thesis using t by auto
qed

lemma take_four_member: "4 \<le> n \<Longrightarrow> i < 4 \<Longrightarrow> i < length xs \<Longrightarrow> xs ! i \<in> set (take n xs)"
  by (metis in_set_conv_nth length_take min_less_iff_conj nth_take order_less_le_trans)

lemma malformed_line_fragment:
  assumes "s = strip line" "s \<noteq> []" "4 \<le> max_items" "keeps_field (ustr ''text'') inc exc"
  shows "\<exists>frags. extract_text_from_record
             (JDict [(ustr ''text'', JStr s), (ustr ''_parse_error'', JStr m)]) max_items inc exc
           = join (ustr '' '') frags \<and> s \<in> set frags"
proof -
  let ?d = "filter_record_fields [(ustr ''text'', JStr s), (ustr ''_parse_error'', JStr m)] inc exc"
  have ss: "strip s = s" using assms(1) by (simp add: strip_strip)
  have fl: "flatten_strings (JDict ?d) max_items = take (nat max_items) (spec_fragments (JDict ?d))"
    using assms(3) by (simp add: flatten_strings_eq_take)
  have n: "4 \<le> nat max_items" using assms(3) by simp
  have "\<exists>i<4. i < length (spec_fragments (JDict ?d)) \<and> spec_fragments (JDict ?d) ! i = s"
  proof -
    consider "?d = [(ustr ''text'', JStr s)]"
      | "?d = [(ustr ''text'', JStr s), (ustr ''_parse_error'', JStr m)]"
      | "?d = [(ustr ''_parse_error'', JStr m), (ustr ''text'', JStr s)]"
      using synthetic_filtered [OF assms(4), of s m] by auto
    then show ?thesis
    proof cases
      case 1
      have "spec_fragments (JDict ?d) ! 1 = s \<and> 1 < length (spec_fragments (JDict ?d))"
        using assms(2) by (simp add: 1 strip_ustr_text ss) (simp add: ustr_def)
      then show ?thesis by (intro exI [of _ 1]) simp
    next
      case 2
      have "spec_fragments (JDict ?d) ! 1 = s \<and> 1 < length (spec_fragments (JDict ?d))"
        using assms(2) by (simp add: 2 strip_ustr_text ss) (simp add: ustr_def)
      then show ?thesis by (intro exI [of _ 1]) simp
    next
      case 3
      show ?thesis
      proof (cases "strip m = []")
        case True
        have "spec_fragments (JDict ?d) ! 2 = s \<and> 2 < length (spec_fragments (JDict ?d))"
          using assms(2) True
          by (simp add: 3 strip_ustr_text strip_ustr_parse_error ss) (simp add: ustr_def)
        then show ?thesis by (intro exI [of _ 2]) simp
      next
        case False
        have "spec_fragments (JDict ?d) ! 3 = s \<and> 3 < length (spec_fragments (JDict ?d))"
          using assms(2) False
          by (simp add: 3 strip_ustr_text strip_ustr_parse_error ss) (simp add: ustr_def)
        then show ?thesis by (intro exI [of _ 3]) simp
      qed
    qed
  qed
  then obtain i where i: "i < 4" "i < length (spec_fragments (JDict ?d))"
    "spec_fragments (JDict ?d) ! i = s" by blast
  have "s \<in> set (flatten_strings (JDict ?d) max_items)"
    using take_four_member [OF n i(1) i(2)] i(3) fl by simp
  moreover have "extract_text_from_record
             (JDict [(ustr ''text'', JStr s), (ustr ''_parse_error'', JStr m)]) max_items inc exc
           = join (ustr '' '') (flatten_strings (JDict ?d) max_items)"
    by (simp add: extract_text_from_record_def)
  ultimately show ?thesis by blast
qed

lemma malformed_line_text:
  assumes "s = strip line" "s \<noteq> []" "2 \<le> max_items" "ustr ''text'' \<notin> set exc"
  shows "\<exists>rest. extract_text_from_record
            (JDict [(ustr ''text'', JStr s), (ustr ''_parse_error'', JStr m)]) max_items None exc
          = ustr ''text'' @ ustr '' '' @ s @ rest"
proof -
  let ?d = "[(ustr ''text'', JStr s), (ustr ''_parse_error'', JStr m)]"
  have "\<exists>more. filter_record_fields ?d None exc = (ustr ''text'', JStr s) # more"
    using assms(4) by (auto simp: filter_record_fields_def)
  then obtain more where d': "filter_record_fields ?d None exc = (ustr ''text'', JStr s) # more"
    by blast
  have ss: "strip s = s" using assms(1) by (simp add: strip_strip)
  have fr: "spec_fragments (JDict ((ustr ''text'', JStr s) # more))
        = ustr ''text'' # s # spec_fragments_items more"
    using assms(2) by (simp add: strip_ustr_text ss) (simp add: ustr_def)
  define j where "j = nat max_items - 2"
  have j: "nat max_items = Suc (Suc j)" using assms(3) by (simp add: j_def)
  have "flatten_strings (JDict (filter_record_fields ?d None exc)) max_items
        = take (nat max_items) (ustr ''text'' # s # spec_fragments_items more)"
    using assms(3) by (simp only: d' fr flatten_strings_eq_take)
  also have "\<dots> = ustr ''text'' # s # take j (spec_fragments_items more)" by (simp add: j)
  finally have fl: "flatten_strings (JDict (filter_record_fields ?d None exc)) max_items
        = ustr ''text'' # s # take j (spec_fragments_items more)" .
  have "extract_text_from_record (JDict ?d) max_items None exc
        = join (ustr '' '') (ustr ''text'' # s # take j (spec_fragments_items more))"
    by (simp add: extract_text_from_record_def fl)
  then show ?thesis using join_two_prefix by metis
qed

text \<open>
  C7. For every non-blank line of a \<open>.jsonl\<close> file on which \<open>json.loads\<close> raises
  \<open>JSONDecodeError\<close>, reached by the reader (no earlier line made \<open>json.loads\<close> raise
  anything else), the reader yields the record
  \<open>{"text": s, "_parse_error": "invalid_json: " + message}\<close> with the line's 1-based
  number, where \<open>s\<close> is the line with the whitespace at its ends removed, after exactly
  one record for each earlier non-blank line; if on no line \<open>json.loads\<close> raises
  anything else, the reader ends without an exception, having yielded one record for each
  non-blank line, in order. When the field filter keeps \<open>text\<close> and the fragment limit
  is at least four, \<open>s\<close> is one of the fragments joined by spaces into the text that
  is matched against the keywords; with no \<open>--fields\<close> list, a limit of two is enough
  and that text starts with \<open>text\<close>, a space and \<open>s\<close>.
\<close>

theorem jsonl_malformed_line_is_kept:
  assumes "read_input w path = Inr lines"
    and "k < length lines"
    and "strip (lines ! k) \<noteq> []"
    and "json_loads e (strip (lines ! k)) = DecodeError msg"
    and "\<forall>i<k. strip (lines ! i) \<noteq> [] \<longrightarrow> (\<forall>err. json_loads e (strip (lines ! i)) \<noteq> Raises err)"
  shows "\<exists>before after.
           fst (iter_jsonl_records e w path)
             = before @ (Suc k, JDict [(ustr ''text'', JStr (strip (lines ! k))),
                                       (ustr ''_parse_error'', JStr (ustr ''invalid_json: '' @ msg))])
                        # after
         \<and> map fst before = map Suc (filter (\<lambda>i. strip (lines ! i) \<noteq> []) [0 ..< k])
         \<and> ((\<forall>i<length lines. strip (lines ! i) \<noteq> [] \<longrightarrow>
                 (\<forall>err. json_loads e (strip (lines ! i)) \<noteq> Raises err)) \<longrightarrow>
              snd (iter_jsonl_records e w path) = None
              \<and> map fst (fst (iter_jsonl_records e w path))
                  = map Suc (filter (\<lambda>i. strip (lines ! i) \<noteq> []) [0 ..< length lines]))
         \<and> (\<forall>max_items include_fields exclude_fields.
               4 \<le> max_items \<and> keeps_field (ustr ''text'') include_fields exclude_fields \<longrightarrow>
               (\<exists>frags. extract_text_from_record
                          (JDict [(ustr ''text'', JStr (strip (lines ! k))),
                                  (ustr ''_parse_error'', JStr (ustr ''invalid_json: '' @ msg))])
                          max_items include_fields exclude_fields
                        = join (ustr '' '') frags
                      \<and> strip (lines ! k) \<in> set frags))
         \<and> (\<forall>max_items exclude_fields.
               2 \<le> max_items \<and> ustr ''text'' \<notin> set exclude_fields \<longrightarrow>
               (\<exists>rest. extract_text_from_record
                         (JDict [(ustr ''text'', JStr (strip (lines ! k))),
                                 (ustr ''_parse_error'', JStr (ustr ''invalid_json: '' @ msg))])
                         max_items None exclude_fields
                       = ustr ''text'' @ ustr '' '' @ strip (lines ! k) @ rest))"
proof -
  let ?syn = "JDict [(ustr ''text'', JStr (strip (lines ! k))),
                     (ustr ''_parse_error'', JStr (ustr ''invalid_json: '' @ msg))]"
  have it: "iter_jsonl_records e w path = jsonl_lines (json_loads e) 1 lines"
    using assms(1) by (simp add: iter_jsonl_records_def)
  from jsonl_lines_before [OF assms(2,3,4,5), of 1] obtain before after where
    a: "fst (iter_jsonl_records e w path) = before @ (Suc k, ?syn) # after"
    and b: "map fst before = map Suc (filter (\<lambda>i. strip (lines ! i) \<noteq> []) [0 ..< k])"
    by (auto simp: it)
  have c: "(\<forall>i<length lines. strip (lines ! i) \<noteq> [] \<longrightarrow>
                 (\<forall>err. json_loads e (strip (lines ! i)) \<noteq> Raises err)) \<longrightarrow>
              snd (iter_jsonl_records e w path) = None
              \<and> map fst (fst (iter_jsonl_records e w path))
                  = map Suc (filter (\<lambda>i. strip (lines ! i) \<noteq> []) [0 ..< length lines])"
    using jsonl_lines_complete [of lines "json_loads e" 1] by (simp add: it)
  have d: "\<forall>max_items include_fields exclude_fields.
               4 \<le> max_items \<and> keeps_field (ustr ''text'') include_fields exclude_fields \<longrightarrow>
               (\<exists>frags. extract_text_from_record ?syn max_items include_fields exclude_fields
                        = join (ustr '' '') frags
                      \<and> strip (lines ! k) \<in> set frags)"
    using malformed_line_fragment [OF refl assms(3)] by blast
  have f: "\<forall>max_items exclude_fields.
               2 \<le> max_items \<and> ustr ''text'' \<notin> set exclude_fields \<longrightarrow>
               (\<exists>rest. extract_text_from_record ?syn max_items None exclude_fields
                       = ustr ''text'' @ ustr '' '' @ strip (lines ! k) @ rest)"
    using malformed_line_text [OF refl assms(3)] by blast
  show ?thesis using a b c d f by blast
qed

theorem jsonl_malformed_line_is_kept_witness:
  "read_input
     (dry_surroundings (file_env (ustr ''d.jsonl'') [ustr ''null'', ustr '' '', ustr ''  {cardiac arrest '']))
     (ustr ''d.jsonl'')
     = Inr [ustr ''null'', ustr '' '', ustr ''  {cardiac arrest '']
   \<and> strip ([ustr ''null'', ustr '' '', ustr ''  {cardiac arrest ''] ! 2) = ustr ''{cardiac arrest''
   \<and> json_loads (file_env (ustr ''d.jsonl'') [ustr ''null'', ustr '' '', ustr ''  {cardiac arrest ''])
        (ustr ''{cardiac arrest'')
       = DecodeError (ustr ''Expecting property name enclosed in double quotes: line 1 column 2 (char 1)'')
   \<and> (3, JDict [(ustr ''text'', JStr (ustr ''{cardiac arrest'')),
                (ustr ''_parse_error'', JStr (ustr ''invalid_json: Expecting property name enclosed in double quotes: line 1 column 2 (char 1)''))])
       \<in> set (fst (iter_jsonl_records
                      (file_env (ustr ''d.jsonl'') [ustr ''null'', ustr '' '', ustr ''  {cardiac arrest ''])
                      (dry_surroundings (file_env (ustr ''d.jsonl'') [ustr ''null'', ustr '' '', ustr ''  {cardiac arrest '']))
                      (ustr ''d.jsonl'')))
   \<and> iter_jsonl_records
         (file_env (ustr ''d.jsonl'') [ustr ''null'', ustr '' '', ustr ''  {cardiac arrest ''])
         (dry_surroundings (file_env (ustr ''d.jsonl'') [ustr ''null'', ustr '' '', ustr ''  {cardiac arrest '']))
         (ustr ''d.jsonl'')
       = ([(1, JNull),
           (3, JDict [(ustr ''text'', JStr (ustr ''{cardiac arrest'')),
                      (ustr ''_parse_error'', JStr (ustr ''invalid_json: Expecting property name enclosed in double quotes: line 1 column 2 (char 1)''))])],
          None)
   \<and> main ascii_tables
        (file_env (ustr ''d.jsonl'') [ustr ''null'', ustr '' '', ustr ''  {cardiac arrest ''])
        (default_args\<lparr>input := ustr ''d.jsonl'', keywords_arg := ustr ''cardiac'',
                       fields_arg := ustr ''text''\<rparr>)
       = (Reported 1 2 1,
          Some [JDict [(ustr ''text'', JStr (ustr ''{cardiac arrest'')),
                       (ustr ''_extract_meta'',
                        JDict [(ustr ''source_path'', JStr (ustr ''d.jsonl'')),
                               (ustr ''source_line'', JInt 3),
                               (ustr ''matched_keywords'', JList [JStr (ustr ''cardiac'')])])]],
          [])"
proof -
  let ?lines = "[ustr ''null'', ustr '' '', ustr ''  {cardiac arrest '']"
  let ?e = "file_env (ustr ''d.jsonl'') ?lines"
  let ?w = "dry_surroundings ?e"
  let ?msg = "ustr ''Expecting property name enclosed in double quotes: line 1 column 2 (char 1)''"
  have h1: "read_input ?w (ustr ''d.jsonl'') = Inr ?lines"
    by (simp add: read_input_def dry_surroundings_def file_env_def)
  have h2: "(2::nat) < length ?lines" by simp
  have s: "strip (?lines ! 2) = ustr ''{cardiac arrest''"
    by (simp add: ustr_def strip_def is_space_def)
  have h3: "strip (?lines ! 2) \<noteq> []" by (simp only: s) (simp add: ustr_def)
  have l: "json_loads ?e (ustr ''{cardiac arrest'') = DecodeError ?msg"
    by (simp add: file_env_def example_loads_def ustr_def ascii_lower_def)
  have h4: "json_loads ?e (strip (?lines ! 2)) = DecodeError ?msg" by (simp only: s l)
  have h5: "\<forall>i<2. strip (?lines ! i) \<noteq> [] \<longrightarrow>
              (\<forall>err. json_loads ?e (strip (?lines ! i)) \<noteq> Raises err)"
  proof (intro allI impI)
    fix i :: nat and err assume "i < 2"
    then have "i = 0 \<or> i = 1" by auto
    then show "json_loads ?e (strip (?lines ! i)) \<noteq> Raises err"
      by (auto simp: file_env_def example_loads_def ustr_def strip_def is_space_def)
  qed
  from jsonl_malformed_line_is_kept [OF h1 h2 h3 h4 h5]
  obtain before after where
    "fst (iter_jsonl_records ?e ?w (ustr ''d.jsonl''))
       = before @ (3, JDict [(ustr ''text'', JStr (strip (?lines ! 2))),
                             (ustr ''_parse_error'', JStr (ustr ''invalid_json: '' @ ?msg))]) # after"
    by (auto simp: eval_nat_numeral)
  then have m: "(3, JDict [(ustr ''text'', JStr (strip (?lines ! 2))),
                           (ustr ''_parse_error'', JStr (ustr ''invalid_json: '' @ ?msg))])
       \<in> set (fst (iter_jsonl_records ?e ?w (ustr ''d.jsonl'')))"
    by simp
  have j: "ustr ''invalid_json: '' @ ?msg
      = ustr ''invalid_json: Expecting property name enclosed in double quotes: line 1 column 2 (char 1)''"
    by (simp add: ustr_def)
  have a: "(3, JDict [(ustr ''text'', JStr (ustr ''{cardiac arrest'')),
                (ustr ''_parse_error'', JStr (ustr ''invalid_json: Expecting property name enclosed in double quotes: line 1 column 2 (char 1)''))])
       \<in> set (fst (iter_jsonl_records ?e ?w (ustr ''d.jsonl'')))"
    using m by (simp only: s j)
  have b: "iter_jsonl_records ?e ?w (ustr ''d.jsonl'')
       = ([(1, JNull),
           (3, JDict [(ustr ''text'', JStr (ustr ''{cardiac arrest'')),
                      (ustr ''_parse_error'', JStr (ustr ''invalid_json: Expecting property name enclosed in double quotes: line 1 column 2 (char 1)''))])],
          None)"
    by (simp add: example_eval string_eval char_eval reader_eval Let_def)
  have c: "main ascii_tables ?e
        (default_args\<lparr>input := ustr ''d.jsonl'', keywords_arg := ustr ''cardiac'',
                       fields_arg := ustr ''text''\<rparr>)
       = (Reported 1 2 1,
          Some [JDict [(ustr ''text'', JStr (ustr ''{cardiac arrest'')),
                       (ustr ''_extract_meta'',
                        JDict [(ustr ''source_path'', JStr (ustr ''d.jsonl'')),
                               (ustr ''source_line'', JInt 3),
                               (ustr ''matched_keywords'', JList [JStr (ustr ''cardiac'')])])]],
          [])"
    by (simp add: example_eval string_eval char_eval matcher_eval record_eval reader_eval
        driver_eval Let_def)
  show ?thesis using h1 s l a b c by (intro conjI)
qed

text \<open>
  The claim names the second key \<open>parse_error\<close> and the text the raw line. The record
  the reader yields for the line \<open>"  {bad "\<close> has no key \<open>parse_error\<close> (the key is
  \<open>_parse_error\<close>), and its text is \<open>"{bad"\<close>, not the line as read. Nor is the line
  always part of what is matched: with \<open>--max-flatten-items 1\<close> the text matched is
  \<open>text\<close> alone, with \<open>--fields _parse_error\<close> it is the key and the message, and
  with \<open>--fields _parse_error,text\<close> and a limit of three it ends at the key
  \<open>text\<close>.
\<close>

theorem jsonl_parse_error_key_counterexample:
  "iter_jsonl_records (file_env (ustr ''d.jsonl'') [ustr ''  {bad ''])
     (dry_surroundings (file_env (ustr ''d.jsonl'') [ustr ''  {bad ''])) (ustr ''d.jsonl'')
     = ([(1, JDict [(ustr ''text'', JStr (ustr ''{bad'')),
                    (ustr ''_parse_error'', JStr (ustr ''invalid_json: Expecting property name enclosed in double quotes: line 1 column 2 (char 1)''))])],
        None)
   \<and> dict_get [(ustr ''text'', JStr (ustr ''{bad'')),
               (ustr ''_parse_error'', JStr (ustr ''invalid_json: Expecting property name enclosed in double quotes: line 1 column 2 (char 1)''))]
        (ustr ''parse_error'') = None
   \<and> ustr ''{bad'' \<noteq> ustr ''  {bad ''
   \<and> extract_text_from_record
        (JDict [(ustr ''text'', JStr (ustr ''{bad'')),
                (ustr ''_parse_error'', JStr (ustr ''invalid_json: Expecting property name enclosed in double quotes: line 1 column 2 (char 1)''))])
        1 None [ustr ''meta_info'']
       = ustr ''text''
   \<and> extract_text_from_record
        (JDict [(ustr ''text'', JStr (ustr ''{bad'')),
                (ustr ''_parse_error'', JStr (ustr ''invalid_json: Expecting property name enclosed in double quotes: line 1 column 2 (char 1)''))])
        200 (Some [ustr ''_parse_error'']) [ustr ''meta_info'']
       = ustr ''_parse_error invalid_json: Expecting property name enclosed in double quotes: line 1 column 2 (char 1)''
   \<and> extract_text_from_record
        (JDict [(ustr ''text'', JStr (ustr ''{bad'')),
                (ustr ''_parse_error'', JStr (ustr ''invalid_json: Expecting property name enclosed in double quotes: line 1 column 2 (char 1)''))])
        3 (Some [ustr ''_parse_error'', ustr ''text'']) [ustr ''meta_info'']
       = ustr ''_parse_error invalid_json: Expecting property name enclosed in double quotes: line 1 column 2 (char 1) text''"
  by (simp add: example_eval string_eval char_eval reader_eval record_eval Let_def)

text \<open>
  \<open>json.loads\<close> can also raise an exception that is not a \<open>JSONDecodeError\<close>: a
  plain \<open>ValueError\<close> for an integer of more than 4300 digits, \<open>RecursionError\<close> for
  brackets nested too deep. \<open>iter_jsonl_records\<close> does not catch it: the reader yields
  the records of the lines before and then ends with that exception.
\<close>

lemma jsonl_other_exception_ends_reader:
  assumes "read_input w path = Inr lines"
    and "k < length lines"
    and "strip (lines ! k) \<noteq> []"
    and "json_loads e (strip (lines ! k)) = Raises err"
    and "\<forall>i<k. strip (lines ! i) \<noteq> [] \<longrightarrow> (\<forall>err. json_loads e (strip (lines ! i)) \<noteq> Raises err)"
  shows "snd (iter_jsonl_records e w path) = Some err
       \<and> map fst (fst (iter_jsonl_records e w path))
           = map Suc (filter (\<lambda>i. strip (lines ! i) \<noteq> []) [0 ..< k])"
  using jsonl_lines_raises [OF assms(2,3,4,5), of 1] assms(1)
  by (simp add: iter_jsonl_records_def)

section \<open>Properties of the Extraction Driver\<close>

lemma final_state_simps [simp]:
  "final_state (Inl (a, st)) = st" "final_state (Inr st) = st"
  by (simp_all add: final_state_def)


lemma scan_records_Nil:
  "scan_records U e c path ending [] st =
     (case ending of None \<Rightarrow> Inr st | Some err \<Rightarrow> Inl (UnexpectedError, st))"
  by simp

declare scan_records.simps [simp del]

lemma written_counted [simp]: "written (counted st) = written st"
  by (simp add: counted_def)

lemma written_matched [simp]: "written (matched st) = written st"
  by (simp add: matched_def)


lemma scan_files_Cons:
  "scan_files U e w c (path # rest) st =
     (if names_output w path \<and> written st \<noteq> [] \<and> has_reader (py_lower U (splitext_ext path))
      then Inl (OutsideModel, st\<lparr>scanned_files := scanned_files st + 1\<rparr>)
      else
       (case resolve_reader e w c (py_lower U (splitext_ext path)) path of
          NoReader \<Rightarrow> scan_files U e w c rest (st\<lparr>scanned_files := scanned_files st + 1\<rparr>)
        | ReaderFailed err \<Rightarrow>
            scan_files U e w c rest
              (st\<lparr>scanned_files := scanned_files st + 1, warnings := warnings st @ [path]\<rparr>)
        | ReaderRaised err \<Rightarrow>
            Inl (UnexpectedError, st\<lparr>scanned_files := scanned_files st + 1\<rparr>)
        | Records records ending \<Rightarrow>
            (case scan_records U e c path ending records
                    (st\<lparr>scanned_files := scanned_files st + 1\<rparr>) of
               Inl a \<Rightarrow> Inl a
             | Inr st2 \<Rightarrow> if at_limit c st2 then Inr st2 else scan_files U e w c rest st2)))"
  by (auto simp: Let_def at_limit_def has_reader_def split: reader.splits sum.splits)

declare scan_files.simps(2) [simp del]

lemma scan_files_step:
  "\<not> (names_output w path \<and> written st \<noteq> [] \<and> has_reader (py_lower U (splitext_ext path))) \<Longrightarrow>
   scan_files U e w c (path # rest) st =
       (case resolve_reader e w c (py_lower U (splitext_ext path)) path of
          NoReader \<Rightarrow> scan_files U e w c rest (st\<lparr>scanned_files := scanned_files st + 1\<rparr>)
        | ReaderFailed err \<Rightarrow>
            scan_files U e w c rest
              (st\<lparr>scanned_files := scanned_files st + 1, warnings := warnings st @ [path]\<rparr>)
        | ReaderRaised err \<Rightarrow>
            Inl (UnexpectedError, st\<lparr>scanned_files := scanned_files st + 1\<rparr>)
        | Records records ending \<Rightarrow>
            (case scan_records U e c path ending records
                    (st\<lparr>scanned_files := scanned_files st + 1\<rparr>) of
               Inl a \<Rightarrow> Inl a
             | Inr st2 \<Rightarrow> if at_limit c st2 then Inr st2 else scan_files U e w c rest st2))"
  by (simp only: scan_files_Cons if_False)














text \<open>
  C1. With \<open>--max-records 2\<close> on one file of three lines, each of them a record that
  matches, the run processes two records and stops, but the count it prints as
  \<open>Total records/lines scanned\<close> is 3: the counter is raised before the ceiling is
  tested, so the record that trips the ceiling is counted too.
\<close>

theorem max_records_reports_one_more:
  "fst (main ascii_tables
          (file_env (ustr ''notes.txt'')
             [ustr ''cardiac arrest on arrival'', ustr ''cardiac output was low'',
              ustr ''cardiac enzymes were raised''])
          (default_args\<lparr>input := ustr ''notes.txt'', keywords_arg := ustr ''cardiac'',
                         max_records := 2\<rparr>))
   = Reported 1 3 2"
  by (simp add: example_eval string_eval char_eval matcher_eval record_eval reader_eval
      driver_eval Let_def)

text \<open>
  C2. A directory holds \<open>a.txt\<close>, which cannot be opened, and \<open>b.txt\<close>, which can.
  \<open>iter_txt_records\<close> is a generator, so \<open>open\<close> fails inside the record loop, outside
  the \<open>try\<close> that prints the warning: the run returns 1 with no warning, and \<open>b.txt\<close>
  is never scanned.
\<close>

theorem unreadable_text_file_aborts_run:
  "main ascii_tables
     (dir_env (ustr ''data'')
        [(ustr ''a.txt'', None), (ustr ''b.txt'', Some [ustr ''cardiac arrest on arrival''])])
     (default_args\<lparr>input := ustr ''data'', keywords_arg := ustr ''cardiac''\<rparr>)
   = (ReturnedOne, Some [], [])"
  by (simp add: example_eval string_eval char_eval matcher_eval record_eval reader_eval
      driver_eval Let_def)

text \<open>The sibling path: an unreadable \<open>.json\<close> file is skipped with a warning.\<close>

lemma unreadable_json_file_is_skipped:
  "fst (main ascii_tables
     (dir_env (ustr ''data/raw'')
        [(ustr ''a.json'', None), (ustr ''b.txt'', Some [ustr ''cardiac arrest on arrival''])])
     (default_args\<lparr>keywords_arg := ustr ''cardiac''\<rparr>))
   = Reported 2 1 1
   \<and> snd (snd (main ascii_tables
     (dir_env (ustr ''data/raw'')
        [(ustr ''a.json'', None), (ustr ''b.txt'', Some [ustr ''cardiac arrest on arrival''])])
     (default_args\<lparr>keywords_arg := ustr ''cardiac''\<rparr>)))
   = [ustr ''data/raw/a.json'']"
  by (simp add: example_eval string_eval char_eval matcher_eval record_eval reader_eval
      driver_eval Let_def)

text \<open>
  The same in general. A \<open>.jsonl\<close> or \<open>.txt\<close> file that cannot be opened aborts the
  scan, whatever exception \<open>open\<close> raises.
\<close>

lemma scan_files_unreadable_lines_abort:
  assumes "py_lower U (splitext_ext path) = ustr ''.jsonl''
         \<or> py_lower U (splitext_ext path) = ustr ''.txt''"
    and "read_input w path = Inl err"
  shows "scan_files U e w c (path # rest) st
       = Inl (UnexpectedError, st\<lparr>scanned_files := scanned_files st + 1\<rparr>)"
proof -
  from assms(2) have n: "\<not> names_output w path"
    by (auto simp: read_input_def split: if_splits)
  have "resolve_reader e w c (py_lower U (splitext_ext path)) path = Records [] (Some err)"
    using assms
    by (auto simp: resolve_reader_def iter_jsonl_records_def iter_txt_records_def ustr_def)
  then show ?thesis using n by (simp add: scan_files_Cons scan_records_Nil)
qed

text \<open>
  A \<open>.json\<close> file is skipped with a warning when \<open>open\<close> raises an \<open>OSError\<close> or a
  \<open>ValueError\<close>, or when \<open>json.load\<close> raises \<open>JSONDecodeError\<close> or a plain
  \<open>ValueError\<close>.
\<close>

lemma scan_files_unreadable_json_skipped:
  assumes "py_lower U (splitext_ext path) = ustr ''.json''"
    and "(\<exists>err. read_input w path = Inl err \<and> caught_as_io_or_value_error err)
       \<or> (\<exists>lines msg. read_input w path = Inr lines
             \<and> (json_loads e (concat lines) = DecodeError msg
                \<or> json_loads e (concat lines) = Raises (ValueError msg)))"
    and "\<not> (names_output w path \<and> written st \<noteq> [])"
  shows "scan_files U e w c (path # rest) st
       = scan_files U e w c rest
           (st\<lparr>scanned_files := scanned_files st + 1, warnings := warnings st @ [path]\<rparr>)"
proof -
  from assms(2) have "\<exists>err. load_json_file e w path = Inl err \<and> caught_as_io_or_value_error err"
    by (auto simp: load_json_file_def caught_as_io_or_value_error_def)
  then obtain err where "load_json_file e w path = Inl err" "caught_as_io_or_value_error err"
    by blast
  then have "resolve_reader e w c (ustr ''.json'') path = ReaderFailed err"
    by (simp add: resolve_reader_def ustr_def)
  then show ?thesis using assms(3) by (simp add: scan_files_step assms(1))
qed

text \<open>
  Any other exception of \<open>open\<close> or \<open>json.load\<close> on a \<open>.json\<close> file (an unknown
  encoding, brackets nested too deep) is caught by neither \<open>except\<close> clause of
  \<open>_load_json_file\<close> nor by the one around the choice of the reader, and aborts the scan.
\<close>

lemma scan_files_json_other_exception_aborts:
  assumes "py_lower U (splitext_ext path) = ustr ''.json''"
    and "(\<exists>err. read_input w path = Inl err \<and> \<not> caught_as_io_or_value_error err)
       \<or> (\<exists>lines err. read_input w path = Inr lines
             \<and> json_loads e (concat lines) = Raises err
             \<and> \<not> caught_as_io_or_value_error err)"
    and "\<not> (names_output w path \<and> written st \<noteq> [])"
  shows "scan_files U e w c (path # rest) st
       = Inl (UnexpectedError, st\<lparr>scanned_files := scanned_files st + 1\<rparr>)"
proof -
  from assms(2) have "\<exists>err. load_json_file e w path = Inl err \<and> \<not> caught_as_io_or_value_error err"
    by (auto simp: load_json_file_def)
  then obtain err where "load_json_file e w path = Inl err" "\<not> caught_as_io_or_value_error err"
    by blast
  then have "resolve_reader e w c (ustr ''.json'') path = ReaderRaised err"
    by (simp add: resolve_reader_def ustr_def)
  then show ?thesis using assms(3) by (simp add: scan_files_step assms(1))
qed

text \<open>
  A line of a \<open>.jsonl\<close> file on which \<open>json.loads\<close> raises a plain \<open>ValueError\<close>
  aborts the run after the records before it: the first line is written, the third is
  never read.
\<close>

lemma jsonl_line_of_4301_digits_aborts_run:
  "main ascii_tables
     (file_env (ustr ''d.jsonl'') [ustr ''{cardiac arrest'', digits_4301, ustr ''{cardiac output''])
     (default_args\<lparr>input := ustr ''d.jsonl'', keywords_arg := ustr ''cardiac''\<rparr>)
   = (ReturnedOne,
      Some [JDict [(ustr ''text'', JStr (ustr ''{cardiac arrest'')),
                   (ustr ''_parse_error'', JStr (ustr ''invalid_json: Expecting property name enclosed in double quotes: line 1 column 2 (char 1)'')),
                   (ustr ''_extract_meta'',
                    JDict [(ustr ''source_path'', JStr (ustr ''d.jsonl'')),
                           (ustr ''source_line'', JInt 1),
                           (ustr ''matched_keywords'', JList [JStr (ustr ''cardiac'')])])]],
      [])"
  by (simp add: example_eval string_eval char_eval matcher_eval record_eval reader_eval
      driver_eval digits_eval Let_def)

section \<open>Properties of the Knowledge label\<close>

lemma split_on_nonempty: "split_on sep s \<noteq> []"
  by (induction s) (auto split: list.splits)

text \<open>
  The documented example of \<open>derive_knowledge\<close>:
  \<open>data/raw/data_clean/questions/US/dev.jsonl\<close> gives \<open>US/dev\<close>.
\<close>

lemma derive_knowledge_docstring_example:
  "derive_knowledge (JDict [(ustr ''source_path'',
       JStr (ustr ''data/raw/data_clean/questions/US/dev.jsonl''))]) = Inr (ustr ''US/dev'')"
  by (simp add: derive_knowledge_def knowledge_of_path_def ustr_def first_part_def index_of_def)

lemma derive_knowledge_absent:
  "map_of kvs (ustr ''source_path'') = None \<Longrightarrow> derive_knowledge (JDict kvs) = Inr (ustr ''unknown'')"
  by (cases kvs) (simp_all add: derive_knowledge_def)

lemma derive_knowledge_empty:
  "map_of kvs (ustr ''source_path'') = Some (JStr []) \<Longrightarrow>
   derive_knowledge (JDict kvs) = Inr (ustr ''unknown'')"
  by (cases kvs) (simp_all add: derive_knowledge_def)

lemma index_of_first:
  "x \<notin> set pre \<Longrightarrow> index_of x (pre @ x # xs) = length pre"
proof -
  assume "x \<notin> set pre"
  then have "takeWhile (\<lambda>y. y \<noteq> x) (pre @ x # xs) = pre @ takeWhile (\<lambda>y. y \<noteq> x) (x # xs)"
    by (intro takeWhile_append2) auto
  then show ?thesis by (simp add: index_of_def)
qed

text \<open>
  The path pattern: when the segments of the path hold \<open>questions\<close>, first at some
  position, followed by a region and a file name, the label is the region, a slash and
  the file name up to its first dot.
\<close>

lemma knowledge_of_path_questions:
  assumes "split_on 47 (map (\<lambda>c. if c = 92 then 47 else c) sp)
             = pre @ ustr ''questions'' # region # split_file # rest"
    and "ustr ''questions'' \<notin> set pre"
  shows "knowledge_of_path sp = region @ ustr ''/'' @ first_part 46 split_file"
proof -
  let ?parts = "pre @ ustr ''questions'' # region # split_file # rest"
  have i: "index_of (ustr ''questions'') ?parts = length pre"
    using assms(2) by (rule index_of_first)
  have r: "?parts ! (length pre + 1) = region" by (simp add: nth_append)
  have f: "?parts ! (length pre + 2) = split_file" by (simp add: nth_append)
  show ?thesis
    unfolding knowledge_of_path_def assms(1) Let_def i r f by simp
qed

lemma derive_knowledge_of_path:
  "sp \<noteq> [] \<Longrightarrow> map_of kvs (ustr ''source_path'') = Some (JStr sp) \<Longrightarrow>
   derive_knowledge (JDict kvs) = Inr (knowledge_of_path sp)"
  by (cases kvs) (simp_all add: derive_knowledge_def)

text \<open>
  C8. The claim says that a path without the \<open>questions/REGION/SPLIT.ext\<close> segments and
  with at least two segments is labelled by its last two segments with the extension
  stripped. The fallback of \<open>derive_knowledge\<close> joins the last two segments and then
  cuts the joined text at its first dot, so a dot in the directory segment cuts the
  label short: for \<open>data/v1.0/file.txt\<close> the code returns \<open>v1\<close>, where the last two
  segments without the extension are \<open>v1.0/file\<close>.
\<close>

theorem derive_knowledge_fallback_cuts_at_first_dot:
  "derive_knowledge (JDict [(ustr ''source_path'', JStr (ustr ''data/v1.0/file.txt''))])
     = Inr (ustr ''v1'')
   \<and> ustr ''v1'' \<noteq> ustr ''v1.0/file''"
  by (simp add: derive_knowledge_def knowledge_of_path_def ustr_def first_part_def index_of_def)

end
